theory Spec2Isabelle
  imports Complex_Main "HOL-Library.Char_ord" "HOL-Library.List_Lexorder" "HOL-Library.AList"
begin

section \<open>Python values and JSON documents\<close>

text \<open>
  The cache stores Python values built from \<open>None\<close>, booleans, integers, floats,
  strings, lists, tuples and string-keyed dictionaries. A dictionary is an association
  list in insertion order. A finite float is modelled by the rational number it denotes
  (NaN and the infinities are outside the model).
\<close>

datatype pyval = PNone | PBool bool | PInt int | PFloat rat | PStr string
  | PList "pyval list" | PTuple "pyval list" | PDict "(string \<times> pyval) list"

text \<open>A JSON document, as \<open>json.dump\<close> writes it and \<open>json.load\<close> reads it.\<close>

datatype json = JNull | JBool bool | JInt int | JReal rat | JStr string
  | JArr "json list" | JObj "(string \<times> json) list"

text \<open>\<open>json.dump\<close>: lists and tuples are both written as JSON arrays.\<close>

fun json_dump :: "pyval \<Rightarrow> json" where
  "json_dump PNone = JNull"
| "json_dump (PBool b) = JBool b"
| "json_dump (PInt i) = JInt i"
| "json_dump (PFloat r) = JReal r"
| "json_dump (PStr s) = JStr s"
| "json_dump (PList xs) = JArr (map json_dump xs)"
| "json_dump (PTuple xs) = JArr (map json_dump xs)"
| "json_dump (PDict kvs) = JObj (map (\<lambda>(k, v). (k, json_dump v)) kvs)"

text \<open>
  \<open>json.load\<close>: an array is read as a list, an object as a dictionary. Where an
  object repeats a key, the last value wins and the key keeps its first position.
\<close>

definition dict_of_pairs :: "(string \<times> 'a) list \<Rightarrow> (string \<times> 'a) list" where
  "dict_of_pairs kvs = foldl (\<lambda>acc kv. AList.update (fst kv) (snd kv) acc) [] kvs"

fun json_load :: "json \<Rightarrow> pyval" where
  "json_load JNull = PNone"
| "json_load (JBool b) = PBool b"
| "json_load (JInt i) = PInt i"
| "json_load (JReal r) = PFloat r"
| "json_load (JStr s) = PStr s"
| "json_load (JArr xs) = PList (map json_load xs)"
| "json_load (JObj kvs) = PDict (dict_of_pairs (map (\<lambda>(k, v). (k, json_load v)) kvs))"

text \<open>What a value becomes when it is written with \<open>json.dump\<close> and read back.\<close>

definition json_roundtrip :: "pyval \<Rightarrow> pyval" where
  "json_roundtrip v = json_load (json_dump v)"

text \<open>
  Python values that JSON represents exactly are those without a tuple. The association
  list of a Python dictionary never repeats a key.
\<close>

fun tuple_free :: "pyval \<Rightarrow> bool" where
  "tuple_free (PList xs) = list_all tuple_free xs"
| "tuple_free (PTuple xs) = False"
| "tuple_free (PDict kvs) = list_all (\<lambda>kv. tuple_free (snd kv)) kvs"
| "tuple_free v = True"

fun keys_distinct :: "pyval \<Rightarrow> bool" where
  "keys_distinct (PList xs) = list_all keys_distinct xs"
| "keys_distinct (PTuple xs) = list_all keys_distinct xs"
| "keys_distinct (PDict kvs) = (distinct (map fst kvs) \<and> list_all (\<lambda>kv. keys_distinct (snd kv)) kvs)"
| "keys_distinct v = True"

text \<open>The value with every tuple replaced by the list of its items.\<close>

fun untuple :: "pyval \<Rightarrow> pyval" where
  "untuple (PList xs) = PList (map untuple xs)"
| "untuple (PTuple xs) = PList (map untuple xs)"
| "untuple (PDict kvs) = PDict (map (\<lambda>(k, v). (k, untuple v)) kvs)"
| "untuple v = v"

subsection \<open>The Python operations the cache code applies to loaded values\<close>

datatype error = FileNotFoundError | ValueError string | KeyError | TypeError
  | AttributeError | OSError | BadZipFile

text \<open>Truth value of an object, as tested by \<open>if not cache_data\<close>.\<close>

fun py_truthy :: "pyval \<Rightarrow> bool" where
  "py_truthy PNone = False"
| "py_truthy (PBool b) = b"
| "py_truthy (PInt i) = (i \<noteq> 0)"
| "py_truthy (PFloat r) = (r \<noteq> 0)"
| "py_truthy (PStr s) = (s \<noteq> [])"
| "py_truthy (PList xs) = (xs \<noteq> [])"
| "py_truthy (PTuple xs) = (xs \<noteq> [])"
| "py_truthy (PDict kvs) = (kvs \<noteq> [])"

text \<open>Whether the string \<open>k\<close> occurs somewhere inside \<open>s\<close> (\<open>k in s\<close> on strings).\<close>

fun is_substring :: "string \<Rightarrow> string \<Rightarrow> bool" where
  "is_substring k [] = (k = [])"
| "is_substring k (c # cs) = (take (length k) (c # cs) = k \<or> is_substring k cs)"

text \<open>
  Equality of an integer with a loaded value (\<open>==\<close> with an \<open>int\<close> on the left):
  numbers compare by value, \<open>True\<close> and \<open>False\<close> are 1 and 0, anything else is unequal.
\<close>

fun py_int_eq :: "int \<Rightarrow> pyval \<Rightarrow> bool" where
  "py_int_eq i (PInt j) = (i = j)"
| "py_int_eq i (PBool b) = (i = (if b then 1 else 0))"
| "py_int_eq i (PFloat r) = (of_int i = r)"
| "py_int_eq i v = False"

text \<open>\<open>k in v\<close> for a string \<open>k\<close>.\<close>

fun py_contains :: "pyval \<Rightarrow> string \<Rightarrow> error + bool" where
  "py_contains (PDict kvs) k = Inr (k \<in> set (map fst kvs))"
| "py_contains (PList xs) k = Inr (PStr k \<in> set xs)"
| "py_contains (PTuple xs) k = Inr (PStr k \<in> set xs)"
| "py_contains (PStr s) k = Inr (is_substring k s)"
| "py_contains v k = Inl TypeError"

text \<open>\<open>v[k]\<close> for a string \<open>k\<close>.\<close>

fun py_getitem :: "pyval \<Rightarrow> string \<Rightarrow> error + pyval" where
  "py_getitem (PDict kvs) k = (case map_of kvs k of None \<Rightarrow> Inl KeyError | Some x \<Rightarrow> Inr x)"
| "py_getitem v k = Inl TypeError"

text \<open>\<open>v.get(k, d)\<close>: only a dictionary has the method.\<close>

fun py_get :: "pyval \<Rightarrow> string \<Rightarrow> pyval \<Rightarrow> error + pyval" where
  "py_get (PDict kvs) k d = (case map_of kvs k of None \<Rightarrow> Inr d | Some x \<Rightarrow> Inr x)"
| "py_get v k d = Inl AttributeError"

text \<open>\<open>v[k] = x\<close> for a string \<open>k\<close>.\<close>

fun py_setitem :: "pyval \<Rightarrow> string \<Rightarrow> pyval \<Rightarrow> error + pyval" where
  "py_setitem (PDict kvs) k x = Inr (PDict (AList.update k x kvs))"
| "py_setitem v k x = Inl TypeError"

text \<open>\<open>int(x)\<close> on a float: truncation towards zero.\<close>

definition py_int_of_float :: "rat \<Rightarrow> int" where
  "py_int_of_float x = (if 0 \<le> x then \<lfloor>x\<rfloor> else \<lceil>x\<rceil>)"

section \<open>Strings and paths\<close>

text \<open>
  A string is the sequence of its code points, and the model has the code points below
  256 (the type \<open>char\<close>, read as Latin-1); strings are compared as Python compares
  them, code point by code point. On these strings \<open>str.lower\<close> works character by
  character: it maps \<open>A\<close> to \<open>Z\<close> (\<open>0x41\<close> to \<open>0x5A\<close>) and the capital letters of
  Latin-1 (\<open>0xC0\<close> to \<open>0xDE\<close>, the multiplication sign \<open>0xD7\<close> apart) to the
  character \<open>0x20\<close> above, and leaves every other character as it is.
\<close>

fun lower_char :: "char \<Rightarrow> char" where
  "lower_char (Char b0 b1 b2 b3 b4 b5 b6 b7) =
     (if (CHR ''A'' \<le> Char b0 b1 b2 b3 b4 b5 b6 b7 \<and> Char b0 b1 b2 b3 b4 b5 b6 b7 \<le> CHR ''Z'') \<or>
         (b7 \<and> b6 \<and> \<not> b5 \<and> \<not> (b4 \<and> b2 \<and> b1 \<and> b0))
      then Char b0 b1 b2 b3 b4 True b6 b7 else Char b0 b1 b2 b3 b4 b5 b6 b7)"

definition py_lower :: "string \<Rightarrow> string" where
  "py_lower s = map lower_char s"

definition startswith :: "string \<Rightarrow> string \<Rightarrow> bool" where
  "startswith s p = (take (length p) s = p)"

text \<open>The characters after the last occurrence of \<open>c\<close> (all of \<open>s\<close> when there is none).\<close>

definition after_last :: "char \<Rightarrow> string \<Rightarrow> string" where
  "after_last c s = rev (takeWhile (\<lambda>x. x \<noteq> c) (rev s))"

text \<open>Everything up to and including the last occurrence of \<open>c\<close> (empty when there is none).\<close>

definition upto_last :: "char \<Rightarrow> string \<Rightarrow> string" where
  "upto_last c s = rev (dropWhile (\<lambda>x. x \<noteq> c) (rev s))"

definition rstrip :: "char \<Rightarrow> string \<Rightarrow> string" where
  "rstrip c s = rev (dropWhile (\<lambda>x. x = c) (rev s))"

text \<open>\<open>os.path.basename\<close>, \<open>os.path.dirname\<close> and \<open>os.path.join\<close> of \<open>posixpath\<close>.\<close>

definition basename :: "string \<Rightarrow> string" where
  "basename p = after_last CHR ''/'' p"

definition dirname :: "string \<Rightarrow> string" where
  "dirname p =
     (let head = upto_last CHR ''/'' p
      in if head \<noteq> [] \<and> head \<noteq> replicate (length head) CHR ''/''
         then rstrip CHR ''/'' head else head)"

definition path_join :: "string \<Rightarrow> string \<Rightarrow> string" where
  "path_join a b =
     (if startswith b ''/'' then b
      else if a = [] \<or> last a = CHR ''/'' then a @ b
      else a @ ''/'' @ b)"

text \<open>Splitting at every \<open>/\<close>.\<close>

fun split_slash :: "string \<Rightarrow> string list" where
  "split_slash [] = [[]]"
| "split_slash (c # cs) =
     (if c = CHR ''/'' then [] # split_slash cs
      else (case split_slash cs of [] \<Rightarrow> [[c]] | p # ps \<Rightarrow> (c # p) # ps))"

text \<open>
  \<open>Path(p).name\<close>: the last component of the path, empty components and \<open>.\<close>
  components dropped. \<open>Path(p).suffix\<close>: the name from its last dot on, unless that
  dot is the first or the last character of the name.
\<close>

definition path_name :: "string \<Rightarrow> string" where
  "path_name p =
     (case filter (\<lambda>q. q \<noteq> [] \<and> q \<noteq> ''.'') (split_slash p) of
        [] \<Rightarrow> [] | q # qs \<Rightarrow> last (q # qs))"

definition path_suffix :: "string \<Rightarrow> string" where
  "path_suffix p =
     (let name = path_name p; ext = after_last CHR ''.'' name
      in if CHR ''.'' \<in> set name \<and> ext \<noteq> [] \<and> length ext + 1 < length name
         then CHR ''.'' # ext else [])"

section \<open>Enumeration of audio entries\<close>

definition AUDIO_EXTENSIONS :: "string list" where
  "AUDIO_EXTENSIONS = [''.wav'', ''.mp3'', ''.ogg'']"

definition has_audio_extension :: "string \<Rightarrow> bool" where
  "has_audio_extension name = (py_lower (path_suffix name) \<in> set AUDIO_EXTENSIONS)"

definition is_system_file :: "string \<Rightarrow> bool" where
  "is_system_file name = (startswith name ''__MACOSX'' \<or> startswith name ''._'')"

text \<open>
  The two statements \<open>if folder not in files_by_folder: files_by_folder[folder] = []\<close>
  and \<open>files_by_folder[folder].append(name)\<close>: a new folder goes to the end of the
  dictionary, a known one keeps its place.
\<close>

definition append_to_folder ::
  "string \<Rightarrow> string \<Rightarrow> (string \<times> string list) list \<Rightarrow> (string \<times> string list) list" where
  "append_to_folder folder name d =
     (case map_of d folder of
        None \<Rightarrow> d @ [(folder, [name])]
      | Some ns \<Rightarrow> AList.update folder (ns @ [name]) d)"

text \<open>
  The loop of \<open>list_audio_files\<close> that fills \<open>files_by_folder\<close>: a dictionary from
  folder to the names found in it, in the order of the archive directory.
\<close>

fun group_by_folder :: "(string \<times> string list) list \<Rightarrow> string list \<Rightarrow> (string \<times> string list) list" where
  "group_by_folder d [] = d"
| "group_by_folder d (name # names) =
     (if is_system_file name then group_by_folder d names
      else if has_audio_extension name
      then group_by_folder (append_to_folder (dirname name) name d) names
      else group_by_folder d names)"

text \<open>
  The rest of \<open>list_audio_files\<close>: folders sorted by their lower-cased name, the names
  of each folder sorted by their lower-cased base name (both sorts are stable, as
  Python's are), and the folders' lists concatenated.
\<close>

definition scan_audio_files :: "string list \<Rightarrow> string list" where
  "scan_audio_files all_files =
     (let files_by_folder = group_by_folder [] all_files;
          sorted_folders = sort_key py_lower (map fst files_by_folder)
      in concat (map (\<lambda>folder. sort_key (\<lambda>x. py_lower (basename x)) (the (map_of files_by_folder folder)))
                     sorted_folders))"

section \<open>Files, archives and the state of the two managers\<close>

text \<open>
  An entry of a ZIP archive's directory (\<open>ZipInfo\<close>) with what reading the entry
  gives: \<open>z_data\<close> are the entry's bytes, and \<open>z_fault\<close> is the number of bytes after
  which reading the entry raises (stored data that is damaged, or a checksum that does
  not match at the end of the data); \<open>None\<close> when the entry reads to its end.
\<close>

record zentry =
  filename :: string
  file_size :: nat
  date_time :: "int list"
  z_data :: "nat list"
  z_fault :: "nat option"

text \<open>
  What a file holds: a ZIP archive, text that parses as a JSON document, or anything
  else (text that is not JSON, bytes that are not an archive).
\<close>

datatype fcontent = ZipArchive "zentry list" | JsonText json | RawBytes "nat list"

record disk_file =
  content :: fcontent
  st_size :: nat
  st_mtime :: rat

text \<open>
  The state of a \<open>CacheManager\<close>, together with the file system it works on:
  \<open>files\<close> maps a path to the file at that path; \<open>readonly\<close> holds of the paths
  that cannot be written or removed; \<open>clock\<close> is \<open>time.time()\<close>; \<open>wsize\<close> is the
  size the system reports for a file once the program has written the given content.
  \<open>cache_dir\<close> and \<open>cache_index\<close> are the object's fields.
\<close>

record cache_state =
  files :: "string \<rightharpoonup> disk_file"
  readonly :: "string \<Rightarrow> bool"
  clock :: rat
  wsize :: "fcontent \<Rightarrow> nat"
  cache_dir :: string
  cache_index :: "(string \<times> string) list"

text \<open>
  The state of a \<open>ZipManager\<close>: its \<open>cache_manager\<close>, the archives it holds open
  (\<open>open_zips\<close> maps an archive path to the directory that the \<open>ZipFile\<close> read when
  the archive was opened) and the paths it has extracted to. \<open>probe\<close> is the audio
  library on the bytes of an entry: it raises, or finds no duration (\<open>None\<close>), or gives
  the duration in milliseconds.
  \<open>zip_io\<close> is not a field of the program: it counts the times an archive file is
  opened and the times an entry is read.
\<close>

record zip_state =
  cache_manager :: cache_state
  open_zips :: "(string \<times> zentry list) list"
  extracted_files :: "string list"
  probe :: "nat list \<Rightarrow> error + int option"
  zip_io :: nat

text \<open>
  Writing a file (\<open>open(p, 'w')\<close> and the write): fails on a read-only path, on the
  empty path and on a path that ends in a slash.
\<close>

definition fs_write :: "string \<Rightarrow> fcontent \<Rightarrow> cache_state \<Rightarrow> cache_state option" where
  "fs_write p c s =
     (if readonly s p \<or> p = [] \<or> last p = CHR ''/'' then None
      else Some (s\<lparr>files := (files s)(p \<mapsto> \<lparr>content = c, st_size = wsize s c, st_mtime = clock s\<rparr>)\<rparr>))"

text \<open>\<open>os.remove\<close>.\<close>

definition fs_remove :: "string \<Rightarrow> cache_state \<Rightarrow> cache_state option" where
  "fs_remove p s =
     (if readonly s p \<or> files s p = None then None
      else Some (s\<lparr>files := (files s)(p := None)\<rparr>))"

section \<open>CacheManager\<close>

definition get_cache_file_path :: "cache_state \<Rightarrow> string \<Rightarrow> string" where
  "get_cache_file_path s zip_path = path_join (cache_dir s) (basename zip_path @ ''.cache'')"

definition cache_index_file :: "cache_state \<Rightarrow> string" where
  "cache_index_file s = path_join (cache_dir s) ''cache_index.json''"

text \<open>\<open>_save_cache_index\<close>: a failure to write is logged and nothing else happens.\<close>

definition save_cache_index :: "cache_state \<Rightarrow> cache_state" where
  "save_cache_index s =
     (case fs_write (cache_index_file s)
             (JsonText (JObj (map (\<lambda>(k, v). (k, JStr v)) (cache_index s)))) s of
        None \<Rightarrow> s | Some s' \<Rightarrow> s')"

text \<open>
  \<open>_load_cache\<close>: the empty dictionary when the cache file is missing, cannot be read
  or does not parse.
\<close>

definition load_cache :: "string \<Rightarrow> cache_state \<Rightarrow> pyval" where
  "load_cache zip_path s =
     (case files s (get_cache_file_path s zip_path) of
        None \<Rightarrow> PDict []
      | Some f \<Rightarrow> (case content f of JsonText j \<Rightarrow> json_load j | _ \<Rightarrow> PDict []))"

text \<open>\<open>_save_cache\<close>: a failure to write is logged and nothing else happens.\<close>

definition save_cache :: "string \<Rightarrow> pyval \<Rightarrow> cache_state \<Rightarrow> cache_state" where
  "save_cache zip_path cache_data s =
     (case fs_write (get_cache_file_path s zip_path) (JsonText (json_dump cache_data)) s of
        None \<Rightarrow> s | Some s' \<Rightarrow> s')"

text \<open>\<open>_calculate_file_stats\<close>: \<open>os.stat\<close> raises when the file is missing.\<close>

definition calculate_file_stats :: "string \<Rightarrow> cache_state \<Rightarrow> error + (int \<times> int)" where
  "calculate_file_stats file_path s =
     (case files s file_path of
        None \<Rightarrow> Inl FileNotFoundError
      | Some f \<Rightarrow> Inr (int (st_size f), py_int_of_float (st_mtime f)))"

definition stats_dict :: "int \<times> int \<Rightarrow> pyval" where
  "stats_dict st = PDict [(''size'', PInt (fst st)), (''mtime'', PInt (snd st))]"

text \<open>
  \<open>remove_from_cache\<close>: removes the file that the index names for the archive (a
  failure to remove it is logged), then the index registration, and saves the index.
\<close>

definition remove_from_cache :: "string \<Rightarrow> cache_state \<Rightarrow> cache_state" where
  "remove_from_cache zip_path s =
     (case map_of (cache_index s) zip_path of
        None \<Rightarrow> s
      | Some cache_file \<Rightarrow>
          (let s1 = (if files s cache_file \<noteq> None
                     then (case fs_remove cache_file s of None \<Rightarrow> s | Some s' \<Rightarrow> s')
                     else s);
               s2 = s1\<lparr>cache_index := AList.delete zip_path (cache_index s1)\<rparr>
           in save_cache_index s2))"

text \<open>
  \<open>get_cached_metadata\<close>. The result \<open>PNone\<close> is Python's \<open>None\<close>: no valid
  cached metadata. An exception leaves with the state reached when it is raised.
\<close>

definition get_cached_metadata :: "string \<Rightarrow> cache_state \<Rightarrow> (error + pyval) \<times> cache_state" where
  "get_cached_metadata zip_path s =
     (if zip_path \<notin> set (map fst (cache_index s)) then (Inr PNone, s)
      else
        let cache_data = load_cache zip_path s in
        if \<not> py_truthy cache_data then (Inr PNone, s)
        else if files s zip_path = None then (Inr PNone, remove_from_cache zip_path s)
        else
          (case calculate_file_stats zip_path s of
             Inl e \<Rightarrow> (Inl e, s)
           | Inr current_stats \<Rightarrow>
             (case py_contains cache_data ''file_stats'' of
                Inl e \<Rightarrow> (Inl e, s)
              | Inr has_stats \<Rightarrow>
                if has_stats then
                  (case py_getitem cache_data ''file_stats'' of
                     Inl e \<Rightarrow> (Inl e, s)
                   | Inr file_stats \<Rightarrow>
                     (case py_getitem file_stats ''size'' of
                        Inl e \<Rightarrow> (Inl e, s)
                      | Inr cached_size \<Rightarrow>
                        if \<not> py_int_eq (fst current_stats) cached_size
                        then (Inr PNone, remove_from_cache zip_path s)
                        else
                          (case py_getitem file_stats ''mtime'' of
                             Inl e \<Rightarrow> (Inl e, s)
                           | Inr cached_mtime \<Rightarrow>
                             if \<not> py_int_eq (snd current_stats) cached_mtime
                             then (Inr PNone, remove_from_cache zip_path s)
                             else (py_getitem cache_data ''metadata'', s))))
                else
                  (case py_contains cache_data ''checksum'' of
                     Inl e \<Rightarrow> (Inl e, s)
                   | Inr has_checksum \<Rightarrow>
                     if has_checksum then
                       (case py_get cache_data ''size'' (PInt 0) of
                          Inl e \<Rightarrow> (Inl e, s)
                        | Inr cached_size \<Rightarrow>
                          if \<not> py_int_eq (fst current_stats) cached_size
                          then (Inr PNone, remove_from_cache zip_path s)
                          else
                            (case py_setitem cache_data ''file_stats'' (stats_dict current_stats) of
                               Inl e \<Rightarrow> (Inl e, s)
                             | Inr cache_data' \<Rightarrow>
                               (py_getitem cache_data' ''metadata'',
                                save_cache zip_path cache_data' s)))
                     else (Inr PNone, remove_from_cache zip_path s)))))"

text \<open>
  \<open>cache_metadata\<close>, called without \<open>file_bytes\<close> (as every caller in the program
  does).
\<close>

definition cache_metadata :: "string \<Rightarrow> pyval \<Rightarrow> cache_state \<Rightarrow> (error + unit) \<times> cache_state" where
  "cache_metadata zip_path metadata s =
     (case calculate_file_stats zip_path s of
        Inl e \<Rightarrow> (Inl e, s)
      | Inr file_stats \<Rightarrow>
          (let cache_data = PDict [(''file_stats'', stats_dict file_stats),
                                   (''metadata'', metadata),
                                   (''timestamp'', PFloat (clock s))];
               s1 = save_cache zip_path cache_data s;
               s2 = s1\<lparr>cache_index :=
                         AList.update zip_path (get_cache_file_path s1 zip_path) (cache_index s1)\<rparr>
           in (Inr (), save_cache_index s2)))"

section \<open>ZipManager\<close>

text \<open>\<open>zipfile.ZipFile(zip_path, 'r')\<close>: the directory of the archive, when the file is one.\<close>

definition zipfile_open :: "string \<Rightarrow> cache_state \<Rightarrow> error + zentry list" where
  "zipfile_open zip_path s =
     (case files s zip_path of
        None \<Rightarrow> Inl FileNotFoundError
      | Some f \<Rightarrow> (case content f of ZipArchive es \<Rightarrow> Inr es | _ \<Rightarrow> Inl BadZipFile))"

definition namelist :: "zentry list \<Rightarrow> string list" where
  "namelist zf = map filename zf"

text \<open>\<open>ZipFile.getinfo\<close>: where a name is repeated, the last entry of that name.\<close>

definition getinfo :: "zentry list \<Rightarrow> string \<Rightarrow> zentry option" where
  "getinfo zf name =
     (case filter (\<lambda>z. filename z = name) zf of [] \<Rightarrow> None | z # zs \<Rightarrow> Some (last (z # zs)))"

text \<open>
  Reading an entry through the \<open>ZipFile\<close> held for \<open>zip_path\<close>: \<open>ZipFile.open\<close> and
  \<open>read\<close>, of the whole entry (\<open>None\<close>) or of at most \<open>n\<close> bytes. The \<open>ZipFile\<close> reads
  from the archive's file, which the model has under its path: the read raises when
  the file at the path no longer holds the archive that was opened, and when it reaches
  the entry's fault.
\<close>

definition zip_read ::
  "string \<Rightarrow> zentry list \<Rightarrow> zentry \<Rightarrow> nat option \<Rightarrow> cache_state \<Rightarrow> error + nat list" where
  "zip_read zip_path zip_file zip_info n s =
     (if zipfile_open zip_path s \<noteq> Inr zip_file then Inl BadZipFile
      else
        (let wanted = (case n of None \<Rightarrow> length (z_data zip_info)
                              | Some k \<Rightarrow> min k (length (z_data zip_info)))
         in case z_fault zip_info of
              None \<Rightarrow> Inr (take wanted (z_data zip_info))
            | Some p \<Rightarrow> if p \<le> wanted then Inl BadZipFile
                        else Inr (take wanted (z_data zip_info))))"

text \<open>
  \<open>repr\<close> of a string: in single quotes, or in double quotes when the string has a
  single quote and no double quote; the backslash and the quote in use are escaped, and
  so are the characters that do not print.
\<close>

definition hex_digit :: "nat \<Rightarrow> char" where
  "hex_digit n = ''0123456789abcdef'' ! (n mod 16)"

definition py_repr_char :: "char \<Rightarrow> char \<Rightarrow> string" where
  "py_repr_char quote c =
     (let n = (of_char c :: nat)
      in if c = CHR 0x5C \<or> c = quote then [CHR 0x5C, c]
         else if n = 9 then [CHR 0x5C, CHR ''t'']
         else if n = 10 then [CHR 0x5C, CHR ''n'']
         else if n = 13 then [CHR 0x5C, CHR ''r'']
         else if n < 32 \<or> (127 \<le> n \<and> n \<le> 160) \<or> n = 173
         then [CHR 0x5C, CHR ''x'', hex_digit (n div 16), hex_digit n]
         else [c])"

definition py_repr :: "string \<Rightarrow> string" where
  "py_repr s =
     (let quote = (if CHR 0x27 \<in> set s \<and> CHR 0x22 \<notin> set s then CHR 0x22 else CHR 0x27)
      in [quote] @ concat (map (py_repr_char quote) s) @ [quote])"

text \<open>
  \<open>_validate_zip\<close>: an error message, or the opened archive. The message of an
  exception other than \<open>BadZipFile\<close> is \<open>str(e)\<close>, for a file that is not there the
  system's message with the path.
\<close>

definition validate_zip :: "string \<Rightarrow> zip_state \<Rightarrow> (string + zentry list) \<times> zip_state" where
  "validate_zip zip_path s =
     (let s1 = s\<lparr>zip_io := zip_io s + 1\<rparr>
      in case zipfile_open zip_path (cache_manager s) of
           Inl e \<Rightarrow> (if e = BadZipFile then (Inl ''ZIP file is invalid'', s1)
                     else (Inl (''[Errno 2] No such file or directory: '' @ py_repr zip_path), s1))
         | Inr zip_file \<Rightarrow>
             (let audio_files = filter (\<lambda>zinfo. has_audio_extension (filename zinfo)) zip_file
              in if audio_files = [] then (Inl ''No audio files found'', s1)
                 else (Inr zip_file, s1)))"

text \<open>\<open>_ensure_zip_open\<close>; the result is \<open>self.open_zips[zip_path]\<close> afterwards.\<close>

definition ensure_zip_open :: "string \<Rightarrow> zip_state \<Rightarrow> (error + zentry list) \<times> zip_state" where
  "ensure_zip_open zip_path s =
     (case map_of (open_zips s) zip_path of
        Some zip_file \<Rightarrow> (Inr zip_file, s)
      | None \<Rightarrow>
          if files (cache_manager s) zip_path = None then (Inl FileNotFoundError, s)
          else
            (let s1 = s\<lparr>zip_io := zip_io s + 1\<rparr>
             in case zipfile_open zip_path (cache_manager s) of
                  Inl e \<Rightarrow> (Inl (ValueError (''Invalid ZIP file: '' @ zip_path)), s1)
                | Inr zip_file \<Rightarrow>
                    (Inr zip_file,
                     s1\<lparr>open_zips := AList.update zip_path zip_file (open_zips s1)\<rparr>)))"

text \<open>
  \<open>list_audio_files\<close>: the cached list when there is valid cached metadata with the
  key \<open>audio_files\<close>, else the scan of the open archive's directory.
\<close>

definition list_audio_files :: "string \<Rightarrow> zip_state \<Rightarrow> (error + pyval) \<times> zip_state" where
  "list_audio_files zip_path s =
     (case get_cached_metadata zip_path (cache_manager s) of
        (Inl e, c1) \<Rightarrow> (Inl e, s\<lparr>cache_manager := c1\<rparr>)
      | (Inr cached_metadata, c1) \<Rightarrow>
          (let s1 = s\<lparr>cache_manager := c1\<rparr>
           in case (if py_truthy cached_metadata then py_contains cached_metadata ''audio_files''
                    else Inr False) of
                Inl e \<Rightarrow> (Inl e, s1)
              | Inr from_cache \<Rightarrow>
                  if from_cache then (py_getitem cached_metadata ''audio_files'', s1)
                  else
                    (case ensure_zip_open zip_path s1 of
                       (Inl e, s2) \<Rightarrow> (Inl e, s2)
                     | (Inr zip_file, s2) \<Rightarrow>
                         (Inr (PList (map PStr (scan_audio_files (namelist zip_file)))), s2))))"

definition max_header_size :: nat where
  "max_header_size = 1024 * 1024"

text \<open>
  The part of \<open>get_audio_duration\<close> after the cache lookup: the duration is read from
  the first megabyte of the entry and, when the audio library finds none there and the
  entry is larger, from the whole entry. An exception while reading the entry or in the
  audio library is logged, and the result is \<open>None\<close>.
\<close>

definition probe_duration :: "string \<Rightarrow> string \<Rightarrow> zip_state \<Rightarrow> (error + pyval) \<times> zip_state" where
  "probe_duration zip_path file_name s =
     (case ensure_zip_open zip_path s of
        (Inl e, s1) \<Rightarrow> (Inl e, s1)
      | (Inr zip_file, s1) \<Rightarrow>
          (case getinfo zip_file file_name of
             None \<Rightarrow> (Inl KeyError, s1)
           | Some zip_info \<Rightarrow>
               (let s2 = s1\<lparr>zip_io := zip_io s1 + 1\<rparr>
                in case zip_read zip_path zip_file zip_info
                          (if file_size zip_info \<le> max_header_size then None
                           else Some max_header_size) (cache_manager s2) of
                     Inl e \<Rightarrow> (Inr PNone, s2)
                   | Inr file_data \<Rightarrow>
                       (case probe s2 file_data of
                          Inl e \<Rightarrow> (Inr PNone, s2)
                        | Inr (Some duration) \<Rightarrow> (Inr (PInt duration), s2)
                        | Inr None \<Rightarrow>
                            if file_size zip_info > max_header_size then
                              (let s3 = s2\<lparr>zip_io := zip_io s2 + 1\<rparr>
                               in case zip_read zip_path zip_file zip_info None (cache_manager s3) of
                                    Inl e \<Rightarrow> (Inr PNone, s3)
                                  | Inr whole \<Rightarrow>
                                      (case probe s3 whole of
                                         Inr (Some duration) \<Rightarrow> (Inr (PInt duration), s3)
                                       | _ \<Rightarrow> (Inr PNone, s3)))
                            else (Inr PNone, s2)))))"

text \<open>\<open>get_audio_duration\<close>: the cached duration of the entry when there is one.\<close>

definition get_audio_duration :: "string \<Rightarrow> string \<Rightarrow> zip_state \<Rightarrow> (error + pyval) \<times> zip_state" where
  "get_audio_duration zip_path file_name s =
     (case get_cached_metadata zip_path (cache_manager s) of
        (Inl e, c1) \<Rightarrow> (Inl e, s\<lparr>cache_manager := c1\<rparr>)
      | (Inr cached_metadata, c1) \<Rightarrow>
          (let s1 = s\<lparr>cache_manager := c1\<rparr>
           in case (if py_truthy cached_metadata then py_contains cached_metadata ''file_metadata''
                    else Inr False) of
                Inl e \<Rightarrow> (Inl e, s1)
              | Inr has_file_metadata \<Rightarrow>
                  if has_file_metadata then
                    (case py_getitem cached_metadata ''file_metadata'' of
                       Inl e \<Rightarrow> (Inl e, s1)
                     | Inr all_metadata \<Rightarrow>
                         (case py_get all_metadata file_name (PDict []) of
                            Inl e \<Rightarrow> (Inl e, s1)
                          | Inr file_metadata \<Rightarrow>
                              (case py_contains file_metadata ''duration_ms'' of
                                 Inl e \<Rightarrow> (Inl e, s1)
                               | Inr has_duration \<Rightarrow>
                                   if has_duration then (py_getitem file_metadata ''duration_ms'', s1)
                                   else probe_duration zip_path file_name s1)))
                  else probe_duration zip_path file_name s1))"

text \<open>
  The loop of \<open>load_zip\<close> over the listed names (the batches of 50 only pace the
  progress reports). An exception for one name is logged and the loop goes on, with
  what was recorded for that name before the exception.
\<close>

fun collect_file_metadata ::
  "string \<Rightarrow> pyval list \<Rightarrow> (string \<times> pyval) list \<Rightarrow> zip_state \<Rightarrow> (string \<times> pyval) list \<times> zip_state" where
  "collect_file_metadata zip_path [] file_metadata s = (file_metadata, s)"
| "collect_file_metadata zip_path (item # items) file_metadata s =
     (case item of
        PStr file_path \<Rightarrow>
          (case map_of (open_zips s) zip_path of
             None \<Rightarrow> collect_file_metadata zip_path items file_metadata s
           | Some zip_file \<Rightarrow>
               (case getinfo zip_file file_path of
                  None \<Rightarrow> collect_file_metadata zip_path items file_metadata s
                | Some zip_info \<Rightarrow>
                    (let entry = [(''size'', PInt (int (file_size zip_info))),
                                  (''timestamp'', PTuple (map PInt (date_time zip_info)))];
                         fm1 = AList.update file_path (PDict entry) file_metadata
                     in case get_audio_duration zip_path file_path s of
                          (Inl e, s1) \<Rightarrow> collect_file_metadata zip_path items fm1 s1
                        | (Inr duration, s1) \<Rightarrow>
                            if duration \<noteq> PNone then
                              collect_file_metadata zip_path items
                                (AList.update file_path
                                   (PDict (AList.update ''duration_ms'' duration entry)) fm1) s1
                            else collect_file_metadata zip_path items fm1 s1)))
      | _ \<Rightarrow> collect_file_metadata zip_path items file_metadata s)"

text \<open>
  The result of \<open>load_zip\<close>: \<open>used_cache\<close> and the keys of \<open>steps\<close> of the timing
  dictionary (the times themselves are not modelled).
\<close>

record load_stats =
  used_cache :: bool
  steps :: "string list"

text \<open>
  \<open>load_zip\<close>. The names come from \<open>list_audio_files\<close>, which here runs after a cache
  miss and returns the scanned list; for a value that is not a list the model raises
  \<open>TypeError\<close>.
\<close>

definition load_zip :: "string \<Rightarrow> zip_state \<Rightarrow> (error + load_stats) \<times> zip_state" where
  "load_zip zip_path s =
     (if files (cache_manager s) zip_path = None then (Inl FileNotFoundError, s)
      else
        (case get_cached_metadata zip_path (cache_manager s) of
           (Inl e, c1) \<Rightarrow> (Inl e, s\<lparr>cache_manager := c1\<rparr>)
         | (Inr cached_metadata, c1) \<Rightarrow>
             (let s1 = s\<lparr>cache_manager := c1\<rparr>
              in if cached_metadata \<noteq> PNone
                 then (Inr \<lparr>used_cache = True, steps = [''cache_lookup'']\<rparr>, s1)
                 else if zip_path \<in> set (map fst (open_zips s1))
                 then (Inr \<lparr>used_cache = True, steps = [''opening'']\<rparr>, s1)
                 else
                   (case validate_zip zip_path s1 of
                      (Inl msg, s2) \<Rightarrow> (Inl (ValueError msg), s2)
                    | (Inr zip_file, s2) \<Rightarrow>
                        (let s3 = s2\<lparr>open_zips := AList.update zip_path zip_file (open_zips s2)\<rparr>
                         in case list_audio_files zip_path s3 of
                              (Inl e, s4) \<Rightarrow> (Inl e, s4)
                            | (Inr audio_files, s4) \<Rightarrow>
                                (case audio_files of
                                   PList items \<Rightarrow>
                                     (case collect_file_metadata zip_path items [] s4 of
                                        (file_metadata, s5) \<Rightarrow>
                                          (case map_of (open_zips s5) zip_path of
                                             None \<Rightarrow> (Inl KeyError, s5)
                                           | Some zf \<Rightarrow>
                                               (case cache_metadata zip_path
                                                       (PDict [(''audio_files'', audio_files),
                                                               (''total_files'', PInt (int (length zf))),
                                                               (''file_metadata'', PDict file_metadata)])
                                                       (cache_manager s5) of
                                                  (Inl e, c6) \<Rightarrow> (Inl e, s5\<lparr>cache_manager := c6\<rparr>)
                                                | (Inr u, c6) \<Rightarrow>
                                                    (Inr \<lparr>used_cache = False,
                                                          steps = [''cache_lookup'', ''validation'',
                                                                   ''listing'', ''metadata'',
                                                                   ''cache_write'']\<rparr>,
                                                     s5\<lparr>cache_manager := c6\<rparr>))))
                                 | _ \<Rightarrow> (Inl TypeError, s4)))))))"

text \<open>
  \<open>extract_file\<close>: the entry is copied to the output directory under its base name.
  The entry is opened in the archive first, then the output file is opened for writing
  (from then on it is there, and empty), then the entry is read and written; every
  exception from the opening of the entry on leaves as \<open>OSError\<close>. When the copy
  fails, the model keeps the output file empty, without the bytes copied before the
  failure.
\<close>

definition extract_file :: "string \<Rightarrow> string \<Rightarrow> string \<Rightarrow> zip_state \<Rightarrow> (error + string) \<times> zip_state" where
  "extract_file zip_path file_name output_dir s =
     (case ensure_zip_open zip_path s of
        (Inl e, s1) \<Rightarrow> (Inl e, s1)
      | (Inr zip_file, s1) \<Rightarrow>
          (case getinfo zip_file file_name of
             None \<Rightarrow> (Inl KeyError, s1)
           | Some zip_info \<Rightarrow>
               (let base_name = basename file_name;
                    output_path = path_join output_dir base_name;
                    s2 = s1\<lparr>zip_io := zip_io s1 + 1\<rparr>
                in if zipfile_open zip_path (cache_manager s2) \<noteq> Inr zip_file then (Inl OSError, s2)
                   else
                     (case fs_write output_path (RawBytes []) (cache_manager s2) of
                        None \<Rightarrow> (Inl OSError, s2)
                      | Some c3 \<Rightarrow>
                          (case zip_read zip_path zip_file zip_info None c3 of
                             Inl e \<Rightarrow> (Inl OSError, s2\<lparr>cache_manager := c3\<rparr>)
                           | Inr file_data \<Rightarrow>
                               (case fs_write output_path (RawBytes file_data) c3 of
                                  None \<Rightarrow> (Inl OSError, s2\<lparr>cache_manager := c3\<rparr>)
                                | Some c4 \<Rightarrow>
                                    if files c4 output_path = None
                                    then (Inl OSError, s2\<lparr>cache_manager := c4\<rparr>)
                                    else (Inr output_path,
                                          s2\<lparr>cache_manager := c4,
                                             extracted_files := extracted_files s2 @ [output_path]\<rparr>)))))))"

section \<open>Notions used in the statements and proofs\<close>

definition folders_ok :: "(string \<times> string list) list \<Rightarrow> bool" where
  "folders_ok d = (distinct (map fst d) \<and> (\<forall>f ns. map_of d f = Some ns \<longrightarrow> (\<forall>n\<in>set ns. dirname n = f)))"



definition entry_valid :: "string \<Rightarrow> cache_state \<Rightarrow> pyval \<Rightarrow> bool" where
  "entry_valid zip_path s m =
     (zip_path \<in> set (map fst (cache_index s)) \<and>
      (\<exists>kvs file_stats cached_size cached_mtime f.
          load_cache zip_path s = PDict kvs \<and> files s zip_path = Some f \<and>
          map_of kvs ''file_stats'' = Some file_stats \<and>
          py_getitem file_stats ''size'' = Inr cached_size \<and>
          py_int_eq (int (st_size f)) cached_size \<and>
          py_getitem file_stats ''mtime'' = Inr cached_mtime \<and>
          py_int_eq (py_int_of_float (st_mtime f)) cached_mtime \<and>
          py_getitem (PDict kvs) ''metadata'' = Inr m))"

definition scan_payload :: "zentry list \<Rightarrow> (string \<times> pyval) list \<Rightarrow> pyval" where
  "scan_payload zf file_metadata =
     PDict [(''audio_files'', PList (map PStr (scan_audio_files (namelist zf)))),
            (''total_files'', PInt (int (length zf))),
            (''file_metadata'', PDict file_metadata)]"

definition scan_stats :: load_stats where
  "scan_stats = \<lparr>used_cache = False,
      steps = [''cache_lookup'', ''validation'', ''listing'', ''metadata'', ''cache_write'']\<rparr>"

definition hit_stats :: load_stats where
  "hit_stats = \<lparr>used_cache = True, steps = [''cache_lookup'']\<rparr>"

definition unparseable :: "fcontent \<Rightarrow> bool" where
  "unparseable c = (case c of JsonText j \<Rightarrow> False | _ \<Rightarrow> True)"

text \<open>A small archive, and a cache manager that has not cached anything yet.\<close>

definition demo_names :: "string list" where
  "demo_names = [''drums/kick.wav'', ''drums/Snare.wav'', ''amb/room.ogg'', ''__MACOSX/._kick.wav'']"


definition demo_entry :: "string \<Rightarrow> zentry" where
  "demo_entry name = \<lparr>filename = name, file_size = 4, date_time = [2024, 1, 2, 3, 4, 6],
                       z_data = [82, 73, 70, 70], z_fault = None\<rparr>"

definition demo_archive :: disk_file where
  "demo_archive = \<lparr>content = ZipArchive (map demo_entry demo_names),
                    st_size = 2048, st_mtime = 1700000000\<rparr>"

definition demo_cache :: cache_state where
  "demo_cache = \<lparr>files = [''/music/kit.zip'' \<mapsto> demo_archive], readonly = (\<lambda>p. False),
                  clock = 1700000100, wsize = (\<lambda>c. 0), cache_dir = ''/cache'', cache_index = []\<rparr>"

text \<open>The payload that \<open>load_zip\<close> stores for that archive, and one without a tuple.\<close>

definition demo_payload :: pyval where
  "demo_payload = PDict [(''audio_files'', PList [PStr ''drums/kick.wav'']),
     (''total_files'', PInt 1),
     (''file_metadata'', PDict [(''drums/kick.wav'',
         PDict [(''size'', PInt 4),
                (''timestamp'', PTuple [PInt 2024, PInt 1, PInt 2, PInt 3, PInt 4, PInt 6])])])]"

definition plain_payload :: pyval where
  "plain_payload = PDict [(''audio_files'', PList [PStr ''drums/kick.wav'']),
     (''total_files'', PInt 1), (''file_metadata'', PDict [])]"

definition garbled_cache :: cache_state where
  "garbled_cache = demo_cache\<lparr>
     files := (files demo_cache)(''/cache/kit.zip.cache'' \<mapsto>
                \<lparr>content = RawBytes [123, 34, 102], st_size = 3, st_mtime = 1700000050\<rparr>),
     cache_index := [(''/music/kit.zip'', ''/cache/kit.zip.cache'')]\<rparr>"

text \<open>A cache entry in the legacy format (checksum and size) for the demo archive.\<close>

definition legacy_entry :: json where
  "legacy_entry = JObj [(''checksum'', JStr ''9f86d081884c7d65''), (''size'', JInt 2048),
                        (''metadata'', JObj [(''audio_files'', JArr [JStr ''drums/kick.wav'']),
                                             (''total_files'', JInt 1),
                                             (''file_metadata'', JObj [])]),
                        (''timestamp'', JReal 1600000000)]"

definition legacy_cache :: cache_state where
  "legacy_cache = demo_cache\<lparr>
     files := (files demo_cache)(''/cache/kit.zip.cache'' \<mapsto>
                \<lparr>content = JsonText legacy_entry, st_size = 200, st_mtime = 1600000000\<rparr>),
     cache_index := [(''/music/kit.zip'', ''/cache/kit.zip.cache'')]\<rparr>"

text \<open>
  A cache entry in the fingerprint format for the demo archive, a cache manager that
  holds it, and the same after the archive has grown.
\<close>

definition fingerprint_entry :: json where
  "fingerprint_entry = JObj [(''file_stats'', JObj [(''size'', JInt 2048), (''mtime'', JInt 1700000000)]),
                             (''metadata'', JObj [(''audio_files'', JArr [JStr ''drums/kick.wav'']),
                                                  (''total_files'', JInt 1),
                                                  (''file_metadata'', JObj [])]),
                             (''timestamp'', JReal 1700000100)]"

definition cached_cache :: cache_state where
  "cached_cache = demo_cache\<lparr>
     files := (files demo_cache)(''/cache/kit.zip.cache'' \<mapsto>
                \<lparr>content = JsonText fingerprint_entry, st_size = 200, st_mtime = 1700000100\<rparr>),
     cache_index := [(''/music/kit.zip'', ''/cache/kit.zip.cache'')]\<rparr>"

definition stale_cache :: cache_state where
  "stale_cache = cached_cache\<lparr>
     files := (files cached_cache)(''/music/kit.zip'' \<mapsto> demo_archive\<lparr>st_size := 4096\<rparr>)\<rparr>"

definition fresh_manager :: "cache_state \<Rightarrow> zip_state" where
  "fresh_manager c = \<lparr>cache_manager = c, open_zips = [], extracted_files = [],
                       probe = (\<lambda>bytes. Inr None), zip_io = 0\<rparr>"

text \<open>The demo archive rewritten within the same second to the same size.\<close>

definition touched_archive :: disk_file where
  "touched_archive = \<lparr>content = ZipArchive [demo_entry ''drums/snare.wav''],
                       st_size = 2048, st_mtime = 1700000000 + 1 / 2\<rparr>"


definition demo_listing :: pyval where
  "demo_listing = PList [PStr ''amb/room.ogg'', PStr ''drums/kick.wav'', PStr ''drums/Snare.wav'']"

text \<open>
  An archive with a hidden file in a folder and a file under a metadata folder that is
  not at the top of the archive.
\<close>

definition nested_names :: "string list" where
  "nested_names = [''sub/._x.wav'', ''x/__MACOSX/y.wav'', ''audio1.wav'']"

definition nested_cache :: cache_state where
  "nested_cache = demo_cache\<lparr>
     files := [''/music/kit.zip'' \<mapsto>
                \<lparr>content = ZipArchive (map demo_entry nested_names),
                 st_size = 512, st_mtime = 1700000000\<rparr>]\<rparr>"

text \<open>
  Two different archives with the same file name, in different folders, and a cache
  manager that has cached neither.
\<close>

definition other_payload :: pyval where
  "other_payload = PDict [(''audio_files'', PList [PStr ''loops/bass.mp3'']),
     (''total_files'', PInt 1), (''file_metadata'', PDict [])]"

definition twin_cache :: cache_state where
  "twin_cache = \<lparr>files = [''/a/kit.zip'' \<mapsto> demo_archive,
                           ''/b/kit.zip'' \<mapsto> \<lparr>content = ZipArchive [demo_entry ''loops/bass.mp3''],
                                                st_size = 4096, st_mtime = 1700000500\<rparr>],
                  readonly = (\<lambda>p. False), clock = 1700001000, wsize = (\<lambda>c. 0),
                  cache_dir = ''/cache'', cache_index = []\<rparr>"

text \<open>An archive with two entries of the same base name in different folders.\<close>

definition kick_a :: zentry where
  "kick_a = \<lparr>filename = ''drums/kick.wav'', file_size = 3, date_time = [2024, 1, 2, 3, 4, 6],
             z_data = [1, 2, 3], z_fault = None\<rparr>"

definition kick_b :: zentry where
  "kick_b = \<lparr>filename = ''old/kick.wav'', file_size = 2, date_time = [2023, 5, 6, 7, 8, 10],
             z_data = [9, 9], z_fault = None\<rparr>"

definition kicks_manager :: zip_state where
  "kicks_manager = fresh_manager (demo_cache\<lparr>files := [''/music/kit.zip'' \<mapsto>
      \<lparr>content = ZipArchive [kick_a, kick_b], st_size = 300, st_mtime = 1700000000\<rparr>]\<rparr>)"

text \<open>
  A manager after its own first open of the demo archive; the archive then replaced by
  a larger one with another entry; the manager with that file; and the manager after
  it has opened the archive again.
\<close>

definition opened_manager :: zip_state where
  "opened_manager = snd (load_zip ''/music/kit.zip'' (fresh_manager demo_cache))"

definition grown_archive :: disk_file where
  "grown_archive = \<lparr>content = ZipArchive [demo_entry ''drums/tom.wav''],
                     st_size = 4096, st_mtime = 1700000900\<rparr>"

definition changed_manager :: zip_state where
  "changed_manager = opened_manager\<lparr>cache_manager := (cache_manager opened_manager)\<lparr>
       files := (files (cache_manager opened_manager))(''/music/kit.zip'' \<mapsto> grown_archive)\<rparr>\<rparr>"

definition reopened_manager :: zip_state where
  "reopened_manager = snd (load_zip ''/music/kit.zip'' changed_manager)"

text \<open>A manager over the stale cache that holds the demo archive open.\<close>

definition holding_manager :: zip_state where
  "holding_manager = (fresh_manager stale_cache)\<lparr>
       open_zips := [(''/music/kit.zip'', map demo_entry demo_names)]\<rparr>"

section \<open>Properties\<close>

lemma map_of_append_to_folder:
  "map_of (append_to_folder f n d) =
     (map_of d)(f \<mapsto> (case map_of d f of None \<Rightarrow> [] | Some ns \<Rightarrow> ns) @ [n])"
  by (rule ext) (auto simp: append_to_folder_def update_conv' map_add_def split: option.splits)

lemma keys_append_to_folder:
  "map fst (append_to_folder f n d) = (if map_of d f = None then map fst d @ [f] else map fst d)"
  by (auto simp: append_to_folder_def AList.update_keys map_of_eq_None_iff image_iff split: option.splits)

lemma folders_ok_step: "folders_ok d \<Longrightarrow> folders_ok (append_to_folder (dirname n) n d)"
  by (auto simp: folders_ok_def map_of_append_to_folder keys_append_to_folder map_of_eq_None_iff
      split: if_splits option.splits)


lemma group_by_folder_ok: "folders_ok d \<Longrightarrow> folders_ok (group_by_folder d names)"
  by (induction names arbitrary: d) (auto simp: folders_ok_step)





lemma sorted_concat_groups:
  assumes "sorted (map key fs)" and "\<forall>f\<in>set fs. \<forall>n\<in>set (h f). g n = key f"
  shows "sorted (map g (concat (map h fs)))"
  using assms
proof (induction fs)
  case Nil
  then show ?case by simp
next
  case (Cons f fs)
  have same: "\<forall>x\<in>set (h f). g x = key f" using Cons.prems(2) by simp
  have "sorted (map g (h f))"
    using same by (simp add: sorted_wrt_iff_nth_less sorted_iff_nth_mono_less)
  moreover have "sorted (map g (concat (map h fs)))"
    using Cons by simp
  moreover have "\<forall>x\<in>set (h f). \<forall>f'\<in>set fs. \<forall>y\<in>set (h f'). g x \<le> g y"
    using Cons.prems by auto
  ultimately show ?case
    by (auto simp: sorted_append)
qed

lemma filter_concat_groups:
  assumes "distinct fs" and "\<forall>g\<in>set fs. \<forall>n\<in>set (h g). d n = g"
  shows "filter (\<lambda>n. d n = f) (concat (map h fs)) = (if f \<in> set fs then h f else [])"
  using assms
proof (induction fs)
  case Nil
  then show ?case by simp
next
  case (Cons g fs)
  have here: "filter (\<lambda>n. d n = f) (h g) = (if g = f then h g else [])"
    using Cons.prems(2) by (auto simp: filter_empty_conv)
  show ?case
    using Cons here by auto
qed

lemma scan_group_dirname:
  assumes "f \<in> set (map fst (group_by_folder [] names))"
    and "n \<in> set (the (map_of (group_by_folder [] names) f))"
  shows "dirname n = f"
proof -
  have ok: "folders_ok (group_by_folder [] names)"
    by (rule group_by_folder_ok) (simp add: folders_ok_def)
  obtain ns where "map_of (group_by_folder [] names) f = Some ns"
    using assms(1) by (cases "map_of (group_by_folder [] names) f") (auto simp: map_of_eq_None_iff)
  with ok assms(2) show ?thesis
    by (auto simp: folders_ok_def)
qed

lemma scan_folders_sorted:
  "sorted (map (\<lambda>n. py_lower (dirname n)) (scan_audio_files names))"
  unfolding scan_audio_files_def Let_def
  by (rule sorted_concat_groups[where key = py_lower])
     (auto simp: scan_group_dirname simp del: set_map)

lemma scan_within_folder_sorted:
  "sorted (map (\<lambda>n. py_lower (basename n)) (filter (\<lambda>n. dirname n = f) (scan_audio_files names)))"
proof -
  have ok: "folders_ok (group_by_folder [] names)"
    by (rule group_by_folder_ok) (simp add: folders_ok_def)
  have "filter (\<lambda>n. dirname n = f) (scan_audio_files names) =
        (if f \<in> set (sort_key py_lower (map fst (group_by_folder [] names)))
         then sort_key (\<lambda>x. py_lower (basename x)) (the (map_of (group_by_folder [] names) f)) else [])"
    unfolding scan_audio_files_def Let_def
    by (rule filter_concat_groups)
       (use ok in \<open>auto simp: folders_ok_def scan_group_dirname simp del: set_map\<close>)
  then show ?thesis by simp
qed

subsection \<open>JSON\<close>

lemma update_fresh_key: "k \<notin> set (map fst al) \<Longrightarrow> AList.update k v al = al @ [(k, v)]"
  by (induction al) auto

lemma foldl_update_distinct:
  "distinct (map fst (acc @ kvs)) \<Longrightarrow>
   foldl (\<lambda>acc kv. AList.update (fst kv) (snd kv) acc) acc kvs = acc @ kvs"
proof (induction kvs arbitrary: acc)
  case Nil
  then show ?case by simp
next
  case (Cons kv kvs)
  have "AList.update (fst kv) (snd kv) acc = acc @ [kv]"
    using Cons.prems by (simp add: update_fresh_key)
  then show ?case
    using Cons.IH[of "acc @ [kv]"] Cons.prems by simp
qed

lemma dict_of_pairs_distinct: "distinct (map fst kvs) \<Longrightarrow> dict_of_pairs kvs = kvs"
  using foldl_update_distinct[of "[]" kvs] by (simp add: dict_of_pairs_def)

lemma foldl_update_keys_distinct:
  "distinct (map fst acc) \<Longrightarrow>
   distinct (map fst (foldl (\<lambda>acc kv. AList.update (fst kv) (snd kv) acc) acc kvs))"
  by (induction kvs arbitrary: acc) (auto simp: distinct_update)

lemma distinct_dict_of_pairs: "distinct (map fst (dict_of_pairs kvs))"
  by (simp add: dict_of_pairs_def foldl_update_keys_distinct)

lemma set_update_subset: "set (AList.update k v al) \<subseteq> insert (k, v) (set al)"
  by (induction al) auto

lemma foldl_update_values:
  "snd ` set (foldl (\<lambda>acc kv. AList.update (fst kv) (snd kv) acc) acc kvs)
     \<subseteq> snd ` set acc \<union> snd ` set kvs"
proof (induction kvs arbitrary: acc)
  case Nil
  then show ?case by simp
next
  case (Cons kv kvs)
  have "snd ` set (AList.update (fst kv) (snd kv) acc) \<subseteq> insert (snd kv) (snd ` set acc)"
    using set_update_subset[of "fst kv" "snd kv" acc] by auto
  with Cons.IH[of "AList.update (fst kv) (snd kv) acc"] show ?case
    by auto
qed

lemma values_dict_of_pairs: "snd ` set (dict_of_pairs kvs) \<subseteq> snd ` set kvs"
  using foldl_update_values[of "[]" kvs] by (simp add: dict_of_pairs_def)

lemma json_load_tuple_free: "tuple_free (json_load j)"
proof (induction j)
  case (JArr xs)
  then show ?case by (simp add: list_all_iff)
next
  case (JObj kvs)
  have "\<And>v. v \<in> snd ` set (map (\<lambda>(k, v). (k, json_load v)) kvs) \<Longrightarrow> tuple_free v"
    using JObj by (fastforce simp: snds.simps)
  then have "\<forall>kv\<in>set (dict_of_pairs (map (\<lambda>(k, v). (k, json_load v)) kvs)). tuple_free (snd kv)"
    using values_dict_of_pairs[of "map (\<lambda>(k, v). (k, json_load v)) kvs"]
    by (meson imageI subsetD)
  then show ?case
    by (simp add: list_all_iff)
qed simp_all

lemma json_load_keys_distinct: "keys_distinct (json_load j)"
proof (induction j)
  case (JArr xs)
  then show ?case by (simp add: list_all_iff)
next
  case (JObj kvs)
  have "\<And>v. v \<in> snd ` set (map (\<lambda>(k, v). (k, json_load v)) kvs) \<Longrightarrow> keys_distinct v"
    using JObj by (fastforce simp: snds.simps)
  then have "\<forall>kv\<in>set (dict_of_pairs (map (\<lambda>(k, v). (k, json_load v)) kvs)). keys_distinct (snd kv)"
    using values_dict_of_pairs[of "map (\<lambda>(k, v). (k, json_load v)) kvs"]
    by (meson imageI subsetD)
  then show ?case
    by (simp add: list_all_iff distinct_dict_of_pairs)
qed simp_all

lemma json_roundtrip_untuple: "keys_distinct v \<Longrightarrow> json_roundtrip v = untuple v"
  unfolding json_roundtrip_def
proof (induction v)
  case (PList xs)
  then show ?case by (simp add: list_all_iff)
next
  case (PTuple xs)
  then show ?case by (simp add: list_all_iff)
next
  case (PDict kvs)
  have eq: "map (\<lambda>(k, v). (k, json_load v)) (map (\<lambda>(k, v). (k, json_dump v)) kvs)
        = map (\<lambda>(k, v). (k, untuple v)) kvs"
    using PDict by (auto simp: list_all_iff snds.simps)
  have "map fst (map (\<lambda>(k, v). (k, untuple v)) kvs) = map fst kvs"
    by (induction kvs) auto
  moreover have "distinct (map fst kvs)"
    using PDict.prems by simp
  ultimately have "distinct (map fst (map (\<lambda>(k, v). (k, untuple v)) kvs))"
    by (simp only:)
  then have "dict_of_pairs (map (\<lambda>(k, v). (k, untuple v)) kvs) = map (\<lambda>(k, v). (k, untuple v)) kvs"
    by (rule dict_of_pairs_distinct)
  then show ?case
    by (simp only: json_dump.simps json_load.simps untuple.simps eq)
qed simp_all

lemma untuple_tuple_free: "tuple_free v \<Longrightarrow> untuple v = v"
proof (induction v)
  case (PList xs)
  then show ?case by (simp add: list_all_iff map_idI)
next
  case (PDict kvs)
  then have "map (\<lambda>(k, v). (k, untuple v)) kvs = kvs"
    by (intro map_idI) (auto simp: list_all_iff snds.simps)
  then show ?case by simp
qed simp_all

lemma json_roundtrip_exact: "keys_distinct v \<Longrightarrow> tuple_free v \<Longrightarrow> json_roundtrip v = v"
  by (simp add: json_roundtrip_untuple untuple_tuple_free)

lemma json_roundtrip_loaded: "json_roundtrip (json_load j) = json_load j"
  by (simp add: json_roundtrip_exact json_load_tuple_free json_load_keys_distinct)

lemma json_roundtrip_names: "json_roundtrip (PList (map PStr names)) = PList (map PStr names)"
  by (simp add: json_roundtrip_def comp_def)

subsection \<open>Paths\<close>

lemma after_last_no_sep: "c \<notin> set (after_last c p)"
  unfolding after_last_def using set_takeWhileD[of c "\<lambda>x. x \<noteq> c" "rev p"] by auto

lemma basename_no_slash: "CHR ''/'' \<notin> set (basename p)"
  by (simp add: basename_def after_last_no_sep)

lemma path_join_relative:
  assumes "b \<noteq> []" "CHR ''/'' \<notin> set b"
  shows "\<exists>a'. path_join a b = a' @ b \<and> (a' = [] \<or> last a' = CHR ''/'') \<and> (a' = a \<or> a' = a @ ''/'')"
proof -
  have "\<not> startswith b ''/''"
    using assms by (cases b) (auto simp: startswith_def)
  then show ?thesis
    by (auto simp: path_join_def)
qed

lemma after_last_append:
  assumes "c \<notin> set b" "a = [] \<or> last a = c"
  shows "after_last c (a @ b) = b"
proof -
  have "takeWhile (\<lambda>x. x \<noteq> c) (rev b @ rev a) = rev b"
  proof (cases "a = []")
    case True
    then show ?thesis using assms(1) by (auto simp: takeWhile_eq_all_conv)
  next
    case False
    then have "hd (rev a) = c" using assms(2) by (simp add: hd_rev)
    moreover have "rev a \<noteq> []" using False by simp
    ultimately have "takeWhile (\<lambda>x. x \<noteq> c) (rev a) = []"
      by (cases "rev a") auto
    then show ?thesis
      using takeWhile_append2[of "rev b" "\<lambda>x. x \<noteq> c" "rev a"] assms(1) by auto
  qed
  then show ?thesis by (simp add: after_last_def)
qed

lemma basename_path_join:
  assumes "b \<noteq> []" "CHR ''/'' \<notin> set b"
  shows "basename (path_join a b) = b"
proof -
  obtain a' where "path_join a b = a' @ b" "a' = [] \<or> last a' = CHR ''/''"
    using path_join_relative[OF assms, of a] by blast
  then show ?thesis
    using assms(2) by (simp add: basename_def after_last_append)
qed

lemma cache_name_ok: "basename p @ ''.cache'' \<noteq> [] \<and> CHR ''/'' \<notin> set (basename p @ ''.cache'')"
  using basename_no_slash[of p] by simp

lemma basename_cache_file: "basename (get_cache_file_path s p) = basename p @ ''.cache''"
  unfolding get_cache_file_path_def using cache_name_ok[of p] by (intro basename_path_join) auto

lemma cache_file_neq_archive: "get_cache_file_path s p \<noteq> p"
proof
  assume "get_cache_file_path s p = p"
  then have "basename (get_cache_file_path s p) = basename p" by simp
  then show False by (simp add: basename_cache_file)
qed

lemma basename_index_file: "basename (cache_index_file s) = ''cache_index.json''"
  unfolding cache_index_file_def by (intro basename_path_join) auto

lemma cache_file_neq_index: "get_cache_file_path s p \<noteq> cache_index_file s'"
proof
  assume "get_cache_file_path s p = cache_index_file s'"
  then have "basename (get_cache_file_path s p) = basename (cache_index_file s')" by simp
  then have "basename p @ ''.cache'' = ''cache_index.json''"
    by (simp add: basename_cache_file basename_index_file)
  then have "last (basename p @ ''.cache'') = last ''cache_index.json''" by simp
  then show False by simp
qed

lemma last_path_join:
  assumes "b \<noteq> []" "CHR ''/'' \<notin> set b"
  shows "path_join a b \<noteq> [] \<and> last (path_join a b) = last b"
  using path_join_relative[OF assms, of a] assms(1) by auto

lemma cache_file_shape: "get_cache_file_path s p \<noteq> [] \<and> last (get_cache_file_path s p) \<noteq> CHR ''/''"
  unfolding get_cache_file_path_def
  using last_path_join[of "basename p @ ''.cache''" "cache_dir s"] cache_name_ok[of p] by simp

lemma index_file_shape: "cache_index_file s \<noteq> [] \<and> last (cache_index_file s) \<noteq> CHR ''/''"
  unfolding cache_index_file_def
  using last_path_join[of "''cache_index.json''" "cache_dir s"] by simp

lemma get_cache_file_path_cong:
  "cache_dir s' = cache_dir s \<Longrightarrow> get_cache_file_path s' p = get_cache_file_path s p"
  by (simp add: get_cache_file_path_def)

lemma cache_index_file_cong:
  "cache_dir s' = cache_dir s \<Longrightarrow> cache_index_file s' = cache_index_file s"
  by (simp add: cache_index_file_def)

lemma fs_write_fields:
  assumes "fs_write p c s = Some s'"
  shows "readonly s' = readonly s" "clock s' = clock s" "wsize s' = wsize s"
    "cache_dir s' = cache_dir s" "cache_index s' = cache_index s"
    "files s' = (files s)(p \<mapsto> \<lparr>content = c, st_size = wsize s c, st_mtime = clock s\<rparr>)"
  using assms by (auto simp: fs_write_def split: if_splits)

lemma save_cache_index_fields [simp]:
  "readonly (save_cache_index s) = readonly s" "clock (save_cache_index s) = clock s"
  "wsize (save_cache_index s) = wsize s" "cache_dir (save_cache_index s) = cache_dir s"
  "cache_index (save_cache_index s) = cache_index s"
  by (auto simp: save_cache_index_def fs_write_def split: option.splits)

lemma save_cache_index_files:
  "p \<noteq> cache_index_file s \<Longrightarrow> files (save_cache_index s) p = files s p"
  by (auto simp: save_cache_index_def fs_write_def split: option.splits)

lemma save_cache_fields [simp]:
  "readonly (save_cache A cd s) = readonly s" "clock (save_cache A cd s) = clock s"
  "wsize (save_cache A cd s) = wsize s" "cache_dir (save_cache A cd s) = cache_dir s"
  "cache_index (save_cache A cd s) = cache_index s"
  by (auto simp: save_cache_def fs_write_def split: option.splits)

lemma cache_paths_save [simp]:
  "get_cache_file_path (save_cache A cd s) p = get_cache_file_path s p"
  "get_cache_file_path (save_cache_index s) p = get_cache_file_path s p"
  "get_cache_file_path (s\<lparr>cache_index := ci\<rparr>) p = get_cache_file_path s p"
  "get_cache_file_path (s\<lparr>files := fs\<rparr>) p = get_cache_file_path s p"
  "cache_index_file (save_cache A cd s) = cache_index_file s"
  "cache_index_file (save_cache_index s) = cache_index_file s"
  "cache_index_file (s\<lparr>cache_index := ci\<rparr>) = cache_index_file s"
  "cache_index_file (s\<lparr>files := fs\<rparr>) = cache_index_file s"
  by (simp_all add: get_cache_file_path_def cache_index_file_def)

lemma save_cache_files_other:
  "p \<noteq> get_cache_file_path s A \<Longrightarrow> files (save_cache A cd s) p = files s p"
  by (auto simp: save_cache_def fs_write_def split: option.splits)

lemma save_cache_files_entry:
  "\<not> readonly s (get_cache_file_path s A) \<Longrightarrow>
   files (save_cache A cd s) (get_cache_file_path s A) =
     Some \<lparr>content = JsonText (json_dump cd), st_size = wsize s (JsonText (json_dump cd)),
           st_mtime = clock s\<rparr>"
  using cache_file_shape[of s A] by (simp add: save_cache_def fs_write_def)

lemma save_cache_readonly:
  "readonly s (get_cache_file_path s A) \<Longrightarrow> save_cache A cd s = s"
  by (simp add: save_cache_def fs_write_def)

lemma get_cached_metadata_valid:
  assumes "entry_valid A s m"
  shows "get_cached_metadata A s = (Inr m, s)"
proof -
  from assms obtain kvs file_stats cached_size cached_mtime f where
    idx: "A \<in> set (map fst (cache_index s))" and
    lc: "load_cache A s = PDict kvs" and f: "files s A = Some f" and
    fs: "map_of kvs ''file_stats'' = Some file_stats" and
    sz: "py_getitem file_stats ''size'' = Inr cached_size" "py_int_eq (int (st_size f)) cached_size" and
    mt: "py_getitem file_stats ''mtime'' = Inr cached_mtime"
        "py_int_eq (py_int_of_float (st_mtime f)) cached_mtime" and
    md: "py_getitem (PDict kvs) ''metadata'' = Inr m"
    unfolding entry_valid_def by blast
  have ne: "kvs \<noteq> []" using fs by auto
  have key: "''file_stats'' \<in> fst ` set kvs"
    using fs by (metis map_of_eq_None_iff option.distinct(1))
  have gi: "py_getitem (PDict kvs) ''file_stats'' = Inr file_stats"
    using fs by simp
  show ?thesis
    unfolding get_cached_metadata_def
    using idx lc f sz mt md ne key gi
    by (simp add: calculate_file_stats_def Let_def del: py_getitem.simps)
qed

lemma stats_dict_items:
  "py_getitem (stats_dict st) ''size'' = Inr (PInt (fst st))"
  "py_getitem (stats_dict st) ''mtime'' = Inr (PInt (snd st))"
  by (simp_all add: stats_dict_def)

lemma json_roundtrip_stats_dict: "json_roundtrip (stats_dict st) = stats_dict st"
  by (simp add: json_roundtrip_def stats_dict_def dict_of_pairs_def)

lemma json_roundtrip_cache_data:
  "json_load (json_dump (PDict [(''file_stats'', stats_dict st), (''metadata'', m), (''timestamp'', PFloat t)]))
   = PDict [(''file_stats'', stats_dict st), (''metadata'', json_roundtrip m), (''timestamp'', PFloat t)]"
  using json_roundtrip_stats_dict[of st]
  by (simp add: json_roundtrip_def dict_of_pairs_def)

lemma cache_metadata_missing:
  "files s A = None \<Longrightarrow> cache_metadata A m s = (Inl FileNotFoundError, s)"
  by (simp add: cache_metadata_def calculate_file_stats_def)

lemma cache_metadata_ok:
  "files s A \<noteq> None \<Longrightarrow> fst (cache_metadata A m s) = Inr ()"
  by (auto simp: cache_metadata_def calculate_file_stats_def Let_def)

lemma cache_metadata_fields:
  assumes "files s A = Some f"
  shows "cache_index (snd (cache_metadata A m s)) = AList.update A (get_cache_file_path s A) (cache_index s)"
    and "cache_dir (snd (cache_metadata A m s)) = cache_dir s"
    and "readonly (snd (cache_metadata A m s)) = readonly s"
    and "clock (snd (cache_metadata A m s)) = clock s"
    and "wsize (snd (cache_metadata A m s)) = wsize s"
  using assms
  by (simp_all add: cache_metadata_def calculate_file_stats_def Let_def)

lemma cache_metadata_files_other:
  assumes "files s A = Some f" "p \<noteq> get_cache_file_path s A" "p \<noteq> cache_index_file s"
  shows "files (snd (cache_metadata A m s)) p = files s p"
  using assms
  by (simp add: cache_metadata_def calculate_file_stats_def Let_def save_cache_index_files
      save_cache_files_other)

lemma cache_metadata_files_entry:
  assumes "files s A = Some f" "\<not> readonly s (get_cache_file_path s A)"
  shows "files (snd (cache_metadata A m s)) (get_cache_file_path s A) =
     Some \<lparr>content = JsonText (json_dump (PDict [(''file_stats'', stats_dict (int (st_size f), py_int_of_float (st_mtime f))),
                                   (''metadata'', m), (''timestamp'', PFloat (clock s))])),
           st_size = wsize s (JsonText (json_dump (PDict [(''file_stats'', stats_dict (int (st_size f), py_int_of_float (st_mtime f))),
                                   (''metadata'', m), (''timestamp'', PFloat (clock s))]))),
           st_mtime = clock s\<rparr>"
  using assms cache_file_neq_index[of s A s]
  by (simp add: cache_metadata_def calculate_file_stats_def Let_def save_cache_index_files
      save_cache_files_entry)

lemma cache_metadata_valid:
  assumes f: "files s A = Some f" and w: "\<not> readonly s (get_cache_file_path s A)"
    and ni: "A \<noteq> cache_index_file s"
  shows "entry_valid A (snd (cache_metadata A m s)) (json_roundtrip m)"
proof -
  let ?s' = "snd (cache_metadata A m s)"
  have cf: "get_cache_file_path ?s' A = get_cache_file_path s A"
    by (rule get_cache_file_path_cong) (rule cache_metadata_fields(2)[OF f])
  have fa: "files ?s' A = Some f"
    using cache_metadata_files_other[OF f, of A m] cache_file_neq_archive[of s A] ni f by simp
  have lc: "load_cache A ?s' =
      PDict [(''file_stats'', stats_dict (int (st_size f), py_int_of_float (st_mtime f))),
             (''metadata'', json_roundtrip m), (''timestamp'', PFloat (clock s))]"
    unfolding load_cache_def cf cache_metadata_files_entry[OF f w]
    by (simp del: json_dump.simps json_load.simps add: json_roundtrip_cache_data)
  have idx: "A \<in> set (map fst (cache_index ?s'))"
    unfolding cache_metadata_fields(1)[OF f] using dom_update[of A "get_cache_file_path s A" "cache_index s"] by simp
  show ?thesis
    unfolding entry_valid_def
    using idx lc fa by (simp add: stats_dict_items)
qed

lemma store_then_get:
  assumes "files s A = Some f" "\<not> readonly s (get_cache_file_path s A)" "A \<noteq> cache_index_file s"
  shows "get_cached_metadata A (snd (cache_metadata A m s))
           = (Inr (json_roundtrip m), snd (cache_metadata A m s))"
  by (rule get_cached_metadata_valid) (rule cache_metadata_valid[OF assms])

lemma py_getitem_InrD:
  "py_getitem v k = Inr x \<Longrightarrow> \<exists>kvs. v = PDict kvs \<and> map_of kvs k = Some x"
  by (cases v) (auto split: option.splits)

lemma py_get_InrD:
  "py_get v k d = Inr x \<Longrightarrow> \<exists>kvs. v = PDict kvs \<and> x = (case map_of kvs k of None \<Rightarrow> d | Some y \<Rightarrow> y)"
  by (cases v) (auto split: option.splits)

lemma remove_from_cache_index:
  "zip_path \<notin> set (map fst (cache_index (remove_from_cache zip_path s)))"
proof (cases "map_of (cache_index s) zip_path")
  case None
  then have "remove_from_cache zip_path s = s"
    by (simp add: remove_from_cache_def)
  moreover have "zip_path \<notin> set (map fst (cache_index s))"
    using None by (simp add: map_of_eq_None_iff)
  ultimately show ?thesis by simp
next
  case (Some cache_file)
  then show ?thesis
    by (simp add: remove_from_cache_def Let_def delete_notin_dom)
qed

lemma get_cached_metadata_unregistered:
  "zip_path \<notin> set (map fst (cache_index s)) \<Longrightarrow> get_cached_metadata zip_path s = (Inr PNone, s)"
  by (simp add: get_cached_metadata_def)

lemma get_cached_metadata_cases:
  assumes "get_cached_metadata A c = (Inr m, c1)"
  obtains (miss) "c1 = c" "m = PNone"
        "A \<notin> set (map fst (cache_index c)) \<or> \<not> py_truthy (load_cache A c)"
    | (removed) "c1 = remove_from_cache A c" "m = PNone"
    | (valid) "c1 = c" "entry_valid A c m"
    | (legacy) kvs f where "A \<in> set (map fst (cache_index c))" "load_cache A c = PDict kvs"
        "files c A = Some f" "''file_stats'' \<notin> fst ` set kvs" "''checksum'' \<in> fst ` set kvs"
        "py_int_eq (int (st_size f)) (case map_of kvs ''size'' of None \<Rightarrow> PInt 0 | Some y \<Rightarrow> y)"
        "c1 = save_cache A (PDict (AList.update ''file_stats''
                 (stats_dict (int (st_size f), py_int_of_float (st_mtime f))) kvs)) c"
        "py_getitem (PDict (AList.update ''file_stats''
                 (stats_dict (int (st_size f), py_int_of_float (st_mtime f))) kvs)) ''metadata'' = Inr m"
proof (cases "A \<in> set (map fst (cache_index c)) \<and> py_truthy (load_cache A c) \<and> files c A \<noteq> None")
  case False
  with assms show ?thesis
    by (auto simp: get_cached_metadata_def Let_def intro: miss removed split: if_splits)
next
  case True
  then obtain f where f: "files c A = Some f" by auto
  let ?st = "(int (st_size f), py_int_of_float (st_mtime f))"
  let ?cd = "load_cache A c"
  from True f assms have body:
    "(case py_contains ?cd ''file_stats'' of
        Inl e \<Rightarrow> (Inl e, c)
      | Inr has_stats \<Rightarrow>
          if has_stats then
            (case py_getitem ?cd ''file_stats'' of
               Inl e \<Rightarrow> (Inl e, c)
             | Inr file_stats \<Rightarrow>
               (case py_getitem file_stats ''size'' of
                  Inl e \<Rightarrow> (Inl e, c)
                | Inr cached_size \<Rightarrow>
                  if \<not> py_int_eq (fst ?st) cached_size
                  then (Inr PNone, remove_from_cache A c)
                  else
                    (case py_getitem file_stats ''mtime'' of
                       Inl e \<Rightarrow> (Inl e, c)
                     | Inr cached_mtime \<Rightarrow>
                       if \<not> py_int_eq (snd ?st) cached_mtime
                       then (Inr PNone, remove_from_cache A c)
                       else (py_getitem ?cd ''metadata'', c))))
          else
            (case py_contains ?cd ''checksum'' of
               Inl e \<Rightarrow> (Inl e, c)
             | Inr has_checksum \<Rightarrow>
               if has_checksum then
                 (case py_get ?cd ''size'' (PInt 0) of
                    Inl e \<Rightarrow> (Inl e, c)
                  | Inr cached_size \<Rightarrow>
                    if \<not> py_int_eq (fst ?st) cached_size
                    then (Inr PNone, remove_from_cache A c)
                    else
                      (case py_setitem ?cd ''file_stats'' (stats_dict ?st) of
                         Inl e \<Rightarrow> (Inl e, c)
                       | Inr cache_data' \<Rightarrow>
                         (py_getitem cache_data' ''metadata'', save_cache A cache_data' c)))
               else (Inr PNone, remove_from_cache A c))) = (Inr m, c1)"
    by (simp add: get_cached_metadata_def Let_def calculate_file_stats_def)
  obtain has_stats where hs: "py_contains ?cd ''file_stats'' = Inr has_stats"
    using body by (cases "py_contains ?cd ''file_stats''") auto
  show ?thesis
  proof (cases has_stats)
    case True
    with body hs obtain file_stats where fs: "py_getitem ?cd ''file_stats'' = Inr file_stats"
      by (cases "py_getitem ?cd ''file_stats''") auto
    then obtain kvs where kvs: "?cd = PDict kvs" "map_of kvs ''file_stats'' = Some file_stats"
      using py_getitem_InrD by blast
    from body hs True fs obtain cached_size where cs: "py_getitem file_stats ''size'' = Inr cached_size"
      by (cases "py_getitem file_stats ''size''") auto
    show ?thesis
    proof (cases "py_int_eq (int (st_size f)) cached_size")
      case False
      with body hs True fs cs show ?thesis by (auto intro: removed)
    next
      case szok: True
      with body hs True fs cs obtain cached_mtime where cm: "py_getitem file_stats ''mtime'' = Inr cached_mtime"
        by (cases "py_getitem file_stats ''mtime''") auto
      show ?thesis
      proof (cases "py_int_eq (py_int_of_float (st_mtime f)) cached_mtime")
        case False
        with body hs True fs cs szok cm show ?thesis by (auto intro: removed)
      next
        case mtok: True
        with body hs \<open>has_stats\<close> fs cs szok cm have "py_getitem ?cd ''metadata'' = Inr m" "c1 = c"
          by auto
        then have "entry_valid A c m"
          unfolding entry_valid_def
          using \<open>A \<in> set (map fst (cache_index c)) \<and> py_truthy (load_cache A c) \<and> files c A \<noteq> None\<close>
            f kvs cs szok cm mtok by auto
        with \<open>c1 = c\<close> show ?thesis by (rule valid)
      qed
    qed
  next
    case nostats: False
    with body hs obtain has_checksum where hc: "py_contains ?cd ''checksum'' = Inr has_checksum"
      by (cases "py_contains ?cd ''checksum''") auto
    show ?thesis
    proof (cases has_checksum)
      case False
      with body hs nostats hc show ?thesis by (auto intro: removed)
    next
      case True
      with body hs nostats hc obtain cached_size where cs: "py_get ?cd ''size'' (PInt 0) = Inr cached_size"
        by (cases "py_get ?cd ''size'' (PInt 0)") auto
      then obtain kvs where kvs: "?cd = PDict kvs"
          "cached_size = (case map_of kvs ''size'' of None \<Rightarrow> PInt 0 | Some y \<Rightarrow> y)"
        using py_get_InrD by blast
      show ?thesis
      proof (cases "py_int_eq (int (st_size f)) cached_size")
        case False
        with body hs nostats hc True cs show ?thesis by (auto intro: removed)
      next
        case szok: True
        show ?thesis
        proof (rule legacy[of kvs f])
          show "A \<in> set (map fst (cache_index c))"
            using \<open>A \<in> set (map fst (cache_index c)) \<and> py_truthy (load_cache A c) \<and> files c A \<noteq> None\<close> by simp
          show "load_cache A c = PDict kvs" by (rule kvs(1))
          show "files c A = Some f" by (rule f)
          show "''file_stats'' \<notin> fst ` set kvs" using hs nostats kvs(1) by simp
          show "''checksum'' \<in> fst ` set kvs" using hc True kvs(1) by simp
          show "py_int_eq (int (st_size f)) (case map_of kvs ''size'' of None \<Rightarrow> PInt 0 | Some y \<Rightarrow> y)"
            using szok kvs(2) by simp
          show "c1 = save_cache A (PDict (AList.update ''file_stats'' (stats_dict ?st) kvs)) c"
            using body hs nostats hc True cs szok kvs(1) by simp
          show "py_getitem (PDict (AList.update ''file_stats'' (stats_dict ?st) kvs)) ''metadata'' = Inr m"
            using body hs nostats hc True cs szok kvs(1) by (simp del: py_getitem.simps)
        qed
      qed
    qed
  qed
qed

lemma load_cache_exact: "keys_distinct (load_cache A c) \<and> tuple_free (load_cache A c)"
  by (auto simp: load_cache_def json_load_keys_distinct json_load_tuple_free
      split: option.splits fcontent.splits)

lemma list_all_update:
  assumes "list_all (\<lambda>kv. P (snd kv)) kvs" "P v"
  shows "list_all (\<lambda>kv. P (snd kv)) (AList.update k v kvs)"
  using assms set_update_subset[of k v kvs] by (auto simp: list_all_iff)

lemma update_exact:
  assumes "keys_distinct (PDict kvs)" "tuple_free (PDict kvs)" "keys_distinct v" "tuple_free v"
  shows "json_roundtrip (PDict (AList.update k v kvs)) = PDict (AList.update k v kvs)"
proof (rule json_roundtrip_exact)
  show "keys_distinct (PDict (AList.update k v kvs))"
    using assms by (simp add: distinct_update list_all_update)
  show "tuple_free (PDict (AList.update k v kvs))"
    using assms by (simp add: list_all_update)
qed

lemma stats_dict_exact: "keys_distinct (stats_dict st) \<and> tuple_free (stats_dict st)"
  by (simp add: stats_dict_def)

lemma load_cache_after_save:
  assumes "\<not> readonly c (get_cache_file_path c A)"
  shows "load_cache A (save_cache A cd c) = json_roundtrip cd"
  using assms by (simp add: load_cache_def save_cache_files_entry json_roundtrip_def)

lemma legacy_valid_after:
  assumes idx: "A \<in> set (map fst (cache_index c))" and lc: "load_cache A c = PDict kvs"
    and f: "files c A = Some f" and w: "\<not> readonly c (get_cache_file_path c A)"
    and md: "py_getitem (PDict (AList.update ''file_stats''
                 (stats_dict (int (st_size f), py_int_of_float (st_mtime f))) kvs)) ''metadata'' = Inr m"
  shows "entry_valid A (save_cache A (PDict (AList.update ''file_stats''
                 (stats_dict (int (st_size f), py_int_of_float (st_mtime f))) kvs)) c) m"
proof -
  let ?sd = "stats_dict (int (st_size f), py_int_of_float (st_mtime f))"
  let ?cd = "PDict (AList.update ''file_stats'' ?sd kvs)"
  let ?c1 = "save_cache A ?cd c"
  have ex: "keys_distinct (PDict kvs)" "tuple_free (PDict kvs)"
    using load_cache_exact[of A c] lc by simp_all
  have "load_cache A ?c1 = json_roundtrip ?cd"
    by (rule load_cache_after_save[OF w])
  also have "\<dots> = ?cd"
    using ex stats_dict_exact[of "(int (st_size f), py_int_of_float (st_mtime f))"]
    by (intro update_exact) simp_all
  finally have lc1: "load_cache A ?c1 = ?cd" .
  have fa: "files ?c1 A = Some f"
    using f cache_file_neq_archive[of c A] by (simp add: save_cache_files_other)
  have mo: "map_of (AList.update ''file_stats'' ?sd kvs) ''file_stats'' = Some ?sd"
    by (simp add: update_conv')
  show ?thesis
    unfolding entry_valid_def
    using idx lc1 fa mo md
    by (auto simp: stats_dict_items simp del: py_getitem.simps)
qed

lemma entry_valid_after_hit:
  assumes "get_cached_metadata A c = (Inr m, c1)" "m \<noteq> PNone"
    and "\<not> readonly c (get_cache_file_path c A)"
  shows "entry_valid A c1 m"
  using assms(1)
proof (cases rule: get_cached_metadata_cases)
  case miss
  with assms(2) show ?thesis by simp
next
  case removed
  with assms(2) show ?thesis by simp
next
  case valid
  then show ?thesis by simp
next
  case (legacy kvs f)
  then show ?thesis
    using legacy_valid_after[of A c kvs f m] assms(3) by simp
qed

lemma get_cached_metadata_idem:
  assumes "get_cached_metadata A c = (Inr m, c1)"
  shows "get_cached_metadata A c1 = (Inr m, c1)"
  using assms
proof (cases rule: get_cached_metadata_cases)
  case miss
  with assms show ?thesis by simp
next
  case removed
  then show ?thesis
    using get_cached_metadata_unregistered[OF remove_from_cache_index[of A c]] by simp
next
  case valid
  with assms show ?thesis by simp
next
  case (legacy kvs f)
  show ?thesis
  proof (cases "readonly c (get_cache_file_path c A)")
    case True
    then have "c1 = c" using legacy(7) by (simp add: save_cache_readonly)
    with assms show ?thesis by simp
  next
    case False
    then have "entry_valid A c1 m"
      using legacy_valid_after[of A c kvs f m] legacy by simp
    then show ?thesis by (rule get_cached_metadata_valid)
  qed
qed

lemma fs_remove_fields:
  "fs_remove p s = Some s' \<Longrightarrow>
   readonly s' = readonly s \<and> clock s' = clock s \<and> wsize s' = wsize s \<and>
   cache_dir s' = cache_dir s \<and> cache_index s' = cache_index s"
  by (auto simp: fs_remove_def split: if_splits)

lemma remove_from_cache_fields [simp]:
  "readonly (remove_from_cache A s) = readonly s" "clock (remove_from_cache A s) = clock s"
  "wsize (remove_from_cache A s) = wsize s" "cache_dir (remove_from_cache A s) = cache_dir s"
  by (auto simp: remove_from_cache_def Let_def dest: fs_remove_fields split: option.splits)

lemma get_cached_metadata_env:
  assumes "get_cached_metadata A c = (Inr m, c1)"
  shows "readonly c1 = readonly c \<and> cache_dir c1 = cache_dir c \<and> clock c1 = clock c \<and> wsize c1 = wsize c"
  using assms by (cases rule: get_cached_metadata_cases) simp_all

lemma entry_valid_same_stats:
  assumes "entry_valid A c m" "files c A = Some f"
    and "st_size f' = st_size f" "py_int_of_float (st_mtime f') = py_int_of_float (st_mtime f)"
  shows "entry_valid A (c\<lparr>files := (files c)(A \<mapsto> f')\<rparr>) m"
proof -
  have "load_cache A (c\<lparr>files := (files c)(A \<mapsto> f')\<rparr>) = load_cache A c"
    using cache_file_neq_archive[of c A] by (simp add: load_cache_def)
  then show ?thesis
    using assms unfolding entry_valid_def by auto
qed

lemma zip_state_same [simp]: "s\<lparr>cache_manager := cache_manager s\<rparr> = s"
  by simp

lemma ensure_zip_open_held:
  "map_of (open_zips s) A = Some zf \<Longrightarrow> ensure_zip_open A s = (Inr zf, s)"
  by (simp add: ensure_zip_open_def)

lemma ensure_zip_open_result:
  assumes "ensure_zip_open A s = (Inr zf, s2)"
  shows "map_of (open_zips s2) A = Some zf \<and> cache_manager s2 = cache_manager s"
  using assms
  by (auto simp: ensure_zip_open_def Let_def update_conv' split: option.splits if_splits sum.splits)

lemma list_audio_files_miss:
  assumes "get_cached_metadata A (cache_manager s) = (Inr PNone, c1)"
  shows "list_audio_files A s =
     (case ensure_zip_open A (s\<lparr>cache_manager := c1\<rparr>) of
        (Inl e, s2) \<Rightarrow> (Inl e, s2)
      | (Inr zf, s2) \<Rightarrow> (Inr (PList (map PStr (scan_audio_files (namelist zf)))), s2))"
  using assms by (simp add: list_audio_files_def)

lemma list_audio_files_valid:
  assumes "entry_valid A (cache_manager s) m"
  shows "list_audio_files A s =
     (case (if py_truthy m then py_contains m ''audio_files'' else Inr False) of
        Inl e \<Rightarrow> (Inl e, s)
      | Inr from_cache \<Rightarrow>
          if from_cache then (py_getitem m ''audio_files'', s)
          else (case ensure_zip_open A s of
                  (Inl e, s2) \<Rightarrow> (Inl e, s2)
                | (Inr zf, s2) \<Rightarrow> (Inr (PList (map PStr (scan_audio_files (namelist zf)))), s2)))"
  using get_cached_metadata_valid[OF assms] by (simp add: list_audio_files_def)

lemma entry_valid_exists: "entry_valid A c m \<Longrightarrow> files c A \<noteq> None"
  by (auto simp: entry_valid_def)

lemma load_zip_valid:
  assumes "entry_valid A (cache_manager s) m" "m \<noteq> PNone"
  shows "load_zip A s = (Inr hit_stats, s)"
  using get_cached_metadata_valid[OF assms(1)] entry_valid_exists[OF assms(1)] assms(2)
  by (simp add: load_zip_def hit_stats_def)

lemma probe_duration_held:
  assumes "map_of (open_zips s) A = Some zf"
  shows "\<exists>r n. probe_duration A name s = (r, s\<lparr>zip_io := n\<rparr>)"
proof (cases "getinfo zf name")
  case None
  then have "probe_duration A name s = (Inl KeyError, s\<lparr>zip_io := zip_io s\<rparr>)"
    using assms by (simp add: probe_duration_def ensure_zip_open_held)
  then show ?thesis by blast
next
  case (Some zi)
  then show ?thesis
    using assms
    by (auto simp: probe_duration_def ensure_zip_open_held Let_def split: option.splits sum.splits)
qed

lemma get_audio_duration_miss:
  assumes "get_cached_metadata A (cache_manager s) = (Inr PNone, cache_manager s)"
    and "map_of (open_zips s) A = Some zf"
  shows "\<exists>r n. get_audio_duration A name s = (r, s\<lparr>zip_io := n\<rparr>)"
  using assms(1) probe_duration_held[OF assms(2), of name]
  by (simp add: get_audio_duration_def)

lemma collect_file_metadata_miss:
  assumes "get_cached_metadata A (cache_manager s) = (Inr PNone, cache_manager s)"
    and "map_of (open_zips s) A = Some zf"
  shows "\<exists>fm n. collect_file_metadata A items fm0 s = (fm, s\<lparr>zip_io := n\<rparr>)"
  using assms
proof (induction items arbitrary: fm0 s)
  case Nil
  have "collect_file_metadata A [] fm0 s = (fm0, s\<lparr>zip_io := zip_io s\<rparr>)" by simp
  then show ?case by blast
next
  case (Cons item items)
  show ?case
  proof (cases item)
    case (PStr file_path)
    show ?thesis
    proof (cases "getinfo zf file_path")
      case None
      then show ?thesis
        using Cons.IH[OF Cons.prems, of fm0] Cons.prems(2) PStr by simp
    next
      case (Some zi)
      obtain r n where gd: "get_audio_duration A file_path s = (r, s\<lparr>zip_io := n\<rparr>)"
        using get_audio_duration_miss[OF Cons.prems] by blast
      have inv: "get_cached_metadata A (cache_manager (s\<lparr>zip_io := n\<rparr>))
                   = (Inr PNone, cache_manager (s\<lparr>zip_io := n\<rparr>))"
           "map_of (open_zips (s\<lparr>zip_io := n\<rparr>)) A = Some zf"
        using Cons.prems by simp_all
      have step: "\<And>fm1. \<exists>fm n'. collect_file_metadata A items fm1 (s\<lparr>zip_io := n\<rparr>) = (fm, s\<lparr>zip_io := n'\<rparr>)"
        using Cons.IH[OF inv] by simp
      show ?thesis
        using PStr Some gd Cons.prems(2) step
        by (cases r) (simp_all add: Let_def)
    qed
  qed (use Cons.IH[OF Cons.prems, of fm0] in simp_all)
qed

lemma load_zip_miss_not_hit:
  assumes "get_cached_metadata A (cache_manager s) = (Inr PNone, c1)"
  shows "fst (load_zip A s) \<noteq> Inr hit_stats"
  using assms
  by (auto simp: load_zip_def hit_stats_def Let_def
      split: prod.splits sum.splits pyval.splits option.splits)

lemma zipfile_open_exists: "zipfile_open A c = Inr zf \<Longrightarrow> files c A \<noteq> None"
  by (auto simp: zipfile_open_def split: option.splits)

lemma load_zip_scan:
  assumes miss: "get_cached_metadata A (cache_manager s) = (Inr PNone, c1)"
    and closed: "A \<notin> set (map fst (open_zips s))"
    and ex: "files (cache_manager s) A \<noteq> None"
    and zf: "zipfile_open A c1 = Inr zf"
    and audio: "filter (\<lambda>z. has_audio_extension (filename z)) zf \<noteq> []"
  shows "\<exists>fm n. load_zip A s =
     (Inr scan_stats,
      s\<lparr>cache_manager := snd (cache_metadata A (scan_payload zf fm) c1),
        open_zips := AList.update A zf (open_zips s), zip_io := n\<rparr>)"
proof -
  let ?s1 = "s\<lparr>cache_manager := c1\<rparr>"
  let ?s3 = "s\<lparr>cache_manager := c1, zip_io := zip_io s + 1,
               open_zips := AList.update A zf (open_zips s)\<rparr>"
  let ?items = "map PStr (scan_audio_files (namelist zf))"
  have val: "validate_zip A ?s1 = (Inr zf, s\<lparr>cache_manager := c1, zip_io := zip_io s + 1\<rparr>)"
    using zf audio by (simp add: validate_zip_def Let_def)
  have idem: "get_cached_metadata A c1 = (Inr PNone, c1)"
    by (rule get_cached_metadata_idem[OF miss])
  have held: "map_of (open_zips ?s3) A = Some zf"
    by (simp add: update_conv')
  have gm3: "get_cached_metadata A (cache_manager ?s3) = (Inr PNone, c1)"
    using idem by simp
  have s3c: "?s3\<lparr>cache_manager := c1\<rparr> = ?s3"
    by simp
  have lst: "list_audio_files A ?s3 = (Inr (PList ?items), ?s3)"
    by (simp only: list_audio_files_miss[OF gm3] s3c ensure_zip_open_held[OF held]
        prod.case sum.case)
  obtain fm n where col: "collect_file_metadata A ?items [] ?s3 = (fm, ?s3\<lparr>zip_io := n\<rparr>)"
    using collect_file_metadata_miss[of A ?s3 zf ?items "[]"] idem held by auto
  obtain c6 where cm: "cache_metadata A (scan_payload zf fm) c1 = (Inr (), c6)"
    using cache_metadata_ok[of c1 A "scan_payload zf fm"] zipfile_open_exists[OF zf]
    by (cases "cache_metadata A (scan_payload zf fm) c1") auto
  have "load_zip A s =
     (Inr scan_stats,
      s\<lparr>cache_manager := c6, open_zips := AList.update A zf (open_zips s), zip_io := n\<rparr>)"
    unfolding load_zip_def
    using miss closed ex val lst col cm
    by (simp add: Let_def scan_stats_def scan_payload_def update_conv')
  moreover have "c6 = snd (cache_metadata A (scan_payload zf fm) c1)"
    using cm by simp
  ultimately show ?thesis by blast
qed

lemma load_zip_first_scan:
  assumes first: "load_zip A s = (Inr r1, s1)"
    and miss: "get_cached_metadata A (cache_manager s) = (Inr PNone, c1)"
    and closed: "A \<notin> set (map fst (open_zips s))"
  shows "\<exists>zf fm n. zipfile_open A c1 = Inr zf \<and> r1 = scan_stats \<and>
     s1 = s\<lparr>cache_manager := snd (cache_metadata A (scan_payload zf fm) c1),
            open_zips := AList.update A zf (open_zips s), zip_io := n\<rparr>"
proof -
  have ex: "files (cache_manager s) A \<noteq> None"
    using first by (auto simp: load_zip_def split: if_splits)
  have val: "\<exists>zf. validate_zip A (s\<lparr>cache_manager := c1\<rparr>) = (Inr zf, s\<lparr>cache_manager := c1, zip_io := zip_io s + 1\<rparr>)"
    using first miss closed ex
    by (auto simp: load_zip_def Let_def validate_zip_def split: prod.splits sum.splits if_splits)
  then obtain zf where zf: "zipfile_open A c1 = Inr zf"
      "filter (\<lambda>z. has_audio_extension (filename z)) zf \<noteq> []"
    by (auto simp: validate_zip_def Let_def split: sum.splits if_splits)
  from load_zip_scan[OF miss closed ex zf] obtain fm n where
    "load_zip A s = (Inr scan_stats,
      s\<lparr>cache_manager := snd (cache_metadata A (scan_payload zf fm) c1),
        open_zips := AList.update A zf (open_zips s), zip_io := n\<rparr>)"
    by blast
  with first have "r1 = scan_stats"
    "s1 = s\<lparr>cache_manager := snd (cache_metadata A (scan_payload zf fm) c1),
        open_zips := AList.update A zf (open_zips s), zip_io := n\<rparr>"
    by simp_all
  with zf(1) show ?thesis
    by blast
qed

lemma demo_cache_facts:
  "files demo_cache ''/music/kit.zip'' = Some demo_archive"
  "\<not> readonly demo_cache p"
  "get_cache_file_path demo_cache ''/music/kit.zip'' = ''/cache/kit.zip.cache''"
  "cache_index_file demo_cache = ''/cache/cache_index.json''"
  by (simp_all add: demo_cache_def get_cache_file_path_def cache_index_file_def path_join_def
      startswith_def basename_def after_last_def)

text \<open>
  C3, as stated, fails: the payload that \<open>load_zip\<close> stores holds each entry's
  timestamp as a tuple, and what is read back holds it as a list.
\<close>

theorem roundtrip_tuple_counterexample:
  "fst (get_cached_metadata ''/music/kit.zip''
          (snd (cache_metadata ''/music/kit.zip'' demo_payload demo_cache))) \<noteq> Inr demo_payload"
proof -
  have "get_cached_metadata ''/music/kit.zip''
          (snd (cache_metadata ''/music/kit.zip'' demo_payload demo_cache))
        = (Inr (json_roundtrip demo_payload),
           snd (cache_metadata ''/music/kit.zip'' demo_payload demo_cache))"
    by (rule store_then_get[of demo_cache _ demo_archive]) (simp_all add: demo_cache_facts)
  moreover have "json_roundtrip demo_payload \<noteq> demo_payload"
    by (simp add: json_roundtrip_def demo_payload_def dict_of_pairs_def)
  ultimately show ?thesis by simp
qed

text \<open>
  C3, amended: for an archive that exists (and is not the cache's own index file) and a
  cache entry file that can be written, \<open>cache_metadata\<close> succeeds and
  \<open>get_cached_metadata\<close> then returns the stored payload with every tuple replaced by
  the list of its items; so it returns a payload equal to the stored one when the
  payload holds no tuple.
\<close>

theorem store_then_get_roundtrip:
  assumes "files s A = Some f" and "\<not> readonly s (get_cache_file_path s A)"
    and "A \<noteq> cache_index_file s" and "keys_distinct payload"
  shows "fst (cache_metadata A payload s) = Inr () \<and>
         get_cached_metadata A (snd (cache_metadata A payload s))
           = (Inr (untuple payload), snd (cache_metadata A payload s)) \<and>
         (tuple_free payload \<longrightarrow>
            get_cached_metadata A (snd (cache_metadata A payload s))
              = (Inr payload, snd (cache_metadata A payload s)))"
proof -
  have "get_cached_metadata A (snd (cache_metadata A payload s))
           = (Inr (json_roundtrip payload), snd (cache_metadata A payload s))"
    by (rule store_then_get[OF assms(1-3)])
  then show ?thesis
    using assms(1,4) cache_metadata_ok[of s A payload]
    by (simp add: json_roundtrip_untuple untuple_tuple_free)
qed

theorem store_then_get_roundtrip_witness:
  "get_cached_metadata ''/music/kit.zip''
      (snd (cache_metadata ''/music/kit.zip'' plain_payload demo_cache))
     = (Inr plain_payload, snd (cache_metadata ''/music/kit.zip'' plain_payload demo_cache))"
proof -
  have kd: "keys_distinct plain_payload" and tf: "tuple_free plain_payload"
    by (simp_all add: plain_payload_def)
  have nr: "\<not> readonly demo_cache (get_cache_file_path demo_cache ''/music/kit.zip'')"
    by (rule demo_cache_facts)
  have ni: "''/music/kit.zip'' \<noteq> cache_index_file demo_cache"
    by (simp add: demo_cache_facts)
  from store_then_get_roundtrip[OF demo_cache_facts(1) nr ni kd] tf show ?thesis
    by blast
qed

lemma get_cached_metadata_unparseable:
  assumes "files s (get_cache_file_path s A) = Some cf" "unparseable (content cf)"
  shows "get_cached_metadata A s = (Inr PNone, s)"
proof -
  have "load_cache A s = PDict []"
    using assms by (auto simp: load_cache_def unparseable_def split: fcontent.splits)
  then show ?thesis
    by (simp add: get_cached_metadata_def)
qed

text \<open>
  C7: when the cache entry file of an archive holds data that does not parse,
  \<open>get_cached_metadata\<close> returns \<open>None\<close> without raising and without changing
  anything; a following \<open>cache_metadata\<close> for the archive (which exists; its entry
  file can be written) succeeds, leaves a well-formed entry in the file, and the
  stored payload is then served.
\<close>

theorem corrupt_entry_is_miss_then_overwritten:
  assumes "files s (get_cache_file_path s A) = Some cf" and "unparseable (content cf)"
    and "files s A = Some f" and "\<not> readonly s (get_cache_file_path s A)"
    and "A \<noteq> cache_index_file s"
  shows "get_cached_metadata A s = (Inr PNone, s) \<and>
         fst (cache_metadata A payload s) = Inr () \<and>
         map_option content (files (snd (cache_metadata A payload s)) (get_cache_file_path s A))
           = Some (JsonText (json_dump
               (PDict [(''file_stats'', stats_dict (int (st_size f), py_int_of_float (st_mtime f))),
                       (''metadata'', payload), (''timestamp'', PFloat (clock s))]))) \<and>
         get_cached_metadata A (snd (cache_metadata A payload s))
           = (Inr (json_roundtrip payload), snd (cache_metadata A payload s))"
proof (intro conjI)
  show "get_cached_metadata A s = (Inr PNone, s)"
    by (rule get_cached_metadata_unparseable[OF assms(1,2)])
  show "fst (cache_metadata A payload s) = Inr ()"
    using assms(3) by (simp add: cache_metadata_ok)
  show "map_option content (files (snd (cache_metadata A payload s)) (get_cache_file_path s A))
           = Some (JsonText (json_dump
               (PDict [(''file_stats'', stats_dict (int (st_size f), py_int_of_float (st_mtime f))),
                       (''metadata'', payload), (''timestamp'', PFloat (clock s))])))"
    by (simp add: cache_metadata_files_entry[OF assms(3,4)])
  show "get_cached_metadata A (snd (cache_metadata A payload s))
           = (Inr (json_roundtrip payload), snd (cache_metadata A payload s))"
    by (rule store_then_get[OF assms(3,4,5)])
qed

theorem corrupt_entry_is_miss_then_overwritten_witness:
  "get_cached_metadata ''/music/kit.zip'' garbled_cache = (Inr PNone, garbled_cache) \<and>
   fst (cache_metadata ''/music/kit.zip'' plain_payload garbled_cache) = Inr () \<and>
   get_cached_metadata ''/music/kit.zip''
      (snd (cache_metadata ''/music/kit.zip'' plain_payload garbled_cache))
     = (Inr plain_payload, snd (cache_metadata ''/music/kit.zip'' plain_payload garbled_cache))"
proof -
  have cf: "get_cache_file_path garbled_cache ''/music/kit.zip'' = ''/cache/kit.zip.cache''"
    using demo_cache_facts(3) by (simp add: garbled_cache_def get_cache_file_path_def)
  have h1: "files garbled_cache (get_cache_file_path garbled_cache ''/music/kit.zip'')
              = Some \<lparr>content = RawBytes [123, 34, 102], st_size = 3, st_mtime = 1700000050\<rparr>"
    unfolding cf by (simp add: garbled_cache_def)
  have h2: "unparseable (content \<lparr>content = RawBytes [123, 34, 102], st_size = 3, st_mtime = 1700000050\<rparr>)"
    by (simp add: unparseable_def)
  have h3: "files garbled_cache ''/music/kit.zip'' = Some demo_archive"
    by (simp add: garbled_cache_def demo_cache_def)
  have h4: "\<not> readonly garbled_cache (get_cache_file_path garbled_cache ''/music/kit.zip'')"
    by (simp add: garbled_cache_def demo_cache_def)
  have h5: "''/music/kit.zip'' \<noteq> cache_index_file garbled_cache"
    using demo_cache_facts(4) by (simp add: garbled_cache_def cache_index_file_def)
  have rt: "json_roundtrip plain_payload = plain_payload"
    by (rule json_roundtrip_exact) (simp_all add: plain_payload_def)
  from corrupt_entry_is_miss_then_overwritten[OF h1 h2 h3 h4 h5, of plain_payload] rt
  show ?thesis by simp
qed

lemma get_cached_metadata_legacy:
  assumes idx: "A \<in> set (map fst (cache_index s))" and lc: "load_cache A s = PDict kvs"
    and nofs: "''file_stats'' \<notin> fst ` set kvs" and cs: "''checksum'' \<in> fst ` set kvs"
    and f: "files s A = Some f"
    and sz: "py_int_eq (int (st_size f)) (case map_of kvs ''size'' of None \<Rightarrow> PInt 0 | Some y \<Rightarrow> y)"
  shows "get_cached_metadata A s =
     (py_getitem (PDict (AList.update ''file_stats''
                    (stats_dict (int (st_size f), py_int_of_float (st_mtime f))) kvs)) ''metadata'',
      save_cache A (PDict (AList.update ''file_stats''
                    (stats_dict (int (st_size f), py_int_of_float (st_mtime f))) kvs)) s)"
proof -
  have ne: "kvs \<noteq> []" using cs by auto
  have pg: "py_get (PDict kvs) ''size'' (PInt 0)
              = Inr (case map_of kvs ''size'' of None \<Rightarrow> PInt 0 | Some y \<Rightarrow> y)"
    by (simp split: option.splits)
  show ?thesis
    unfolding get_cached_metadata_def
    using idx lc nofs cs f sz ne pg
    by (simp add: calculate_file_stats_def Let_def del: py_getitem.simps py_get.simps)
qed

lemma delete_exact:
  assumes "keys_distinct (PDict kvs)" "tuple_free (PDict kvs)"
  shows "json_roundtrip (PDict (AList.delete k kvs)) = PDict (AList.delete k kvs)"
proof (rule json_roundtrip_exact)
  have sub: "set (AList.delete k kvs) \<subseteq> set kvs"
    by (auto simp: AList.delete_eq)
  show "keys_distinct (PDict (AList.delete k kvs))"
    using assms(1) sub by (auto simp: distinct_delete list_all_iff)
  show "tuple_free (PDict (AList.delete k kvs))"
    using assms(2) sub by (auto simp: list_all_iff)
qed

text \<open>
  C4: an entry in the legacy format (key \<open>checksum\<close>, no key \<open>file_stats\<close>) whose
  stored size equals the archive's current size is served as valid, and the entry file
  is rewritten with the fingerprint \<open>file_stats\<close> added (the entry file can be
  written). The next read serves the same payload, and so does a read of the
  rewritten entry with its \<open>checksum\<close> field taken out.
\<close>

theorem legacy_entry_upgraded:
  assumes "A \<in> set (map fst (cache_index s))" and "load_cache A s = PDict kvs"
    and "''file_stats'' \<notin> fst ` set kvs" and "''checksum'' \<in> fst ` set kvs"
    and "map_of kvs ''size'' = Some stored_size" and "py_int_eq (int (st_size f)) stored_size"
    and "map_of kvs ''metadata'' = Some m"
    and "files s A = Some f" and "\<not> readonly s (get_cache_file_path s A)"
  shows "let upgraded = AList.update ''file_stats''
                          (stats_dict (int (st_size f), py_int_of_float (st_mtime f))) kvs;
             s1 = save_cache A (PDict upgraded) s;
             s2 = save_cache A (PDict (AList.delete ''checksum'' upgraded)) s1
         in get_cached_metadata A s = (Inr m, s1) \<and>
            load_cache A s1 = PDict upgraded \<and>
            get_cached_metadata A s1 = (Inr m, s1) \<and>
            load_cache A s2 = PDict (AList.delete ''checksum'' upgraded) \<and>
            get_cached_metadata A s2 = (Inr m, s2)"
proof -
  let ?sd = "stats_dict (int (st_size f), py_int_of_float (st_mtime f))"
  let ?up = "AList.update ''file_stats'' ?sd kvs"
  let ?s1 = "save_cache A (PDict ?up) s"
  let ?s2 = "save_cache A (PDict (AList.delete ''checksum'' ?up)) ?s1"
  have md: "py_getitem (PDict ?up) ''metadata'' = Inr m"
    using assms(7) by (simp add: update_conv')
  have sz: "py_int_eq (int (st_size f)) (case map_of kvs ''size'' of None \<Rightarrow> PInt 0 | Some y \<Rightarrow> y)"
    using assms(5,6) by simp
  have g0: "get_cached_metadata A s = (Inr m, ?s1)"
    using get_cached_metadata_legacy[OF assms(1,2,3,4,8) sz] md by simp
  have ex: "keys_distinct (PDict kvs)" "tuple_free (PDict kvs)"
    using load_cache_exact[of A s] assms(2) by simp_all
  have upex: "json_roundtrip (PDict ?up) = PDict ?up"
    using ex stats_dict_exact[of "(int (st_size f), py_int_of_float (st_mtime f))"]
    by (intro update_exact) simp_all
  have l1: "load_cache A ?s1 = PDict ?up"
    using load_cache_after_save[OF assms(9), of "PDict ?up"] upex by simp
  have v1: "entry_valid A ?s1 m"
    by (rule legacy_valid_after[OF assms(1,2,8,9) md])
  have g1: "get_cached_metadata A ?s1 = (Inr m, ?s1)"
    by (rule get_cached_metadata_valid[OF v1])
  have w1: "\<not> readonly ?s1 (get_cache_file_path ?s1 A)"
    using assms(9) by simp
  have upex': "keys_distinct (PDict ?up)" "tuple_free (PDict ?up)"
    using load_cache_exact[of A ?s1] l1 by simp_all
  have l2: "load_cache A ?s2 = PDict (AList.delete ''checksum'' ?up)"
    using load_cache_after_save[OF w1, of "PDict (AList.delete ''checksum'' ?up)"]
      delete_exact[OF upex'] by simp
  have f2: "files ?s2 A = Some f"
    using assms(8) cache_file_neq_archive[of s A] by (simp add: save_cache_files_other)
  have mo: "map_of (AList.delete ''checksum'' ?up) ''file_stats'' = Some ?sd"
    by (simp add: delete_conv' update_conv')
  have md2: "py_getitem (PDict (AList.delete ''checksum'' ?up)) ''metadata'' = Inr m"
    using assms(7) by (simp add: delete_conv' update_conv')
  have v2: "entry_valid A ?s2 m"
    unfolding entry_valid_def
    using assms(1) l2 f2 mo md2
    by (auto simp: stats_dict_items simp del: py_getitem.simps)
  have g2: "get_cached_metadata A ?s2 = (Inr m, ?s2)"
    by (rule get_cached_metadata_valid[OF v2])
  show ?thesis
    unfolding Let_def using g0 l1 g1 l2 g2 by blast
qed

lemma legacy_cache_facts:
  "get_cache_file_path legacy_cache ''/music/kit.zip'' = ''/cache/kit.zip.cache''"
  "files legacy_cache ''/music/kit.zip'' = Some demo_archive"
  "\<not> readonly legacy_cache p"
  "''/music/kit.zip'' \<in> set (map fst (cache_index legacy_cache))"
  "load_cache ''/music/kit.zip'' legacy_cache = json_load legacy_entry"
proof -
  show cf: "get_cache_file_path legacy_cache ''/music/kit.zip'' = ''/cache/kit.zip.cache''"
    using demo_cache_facts(3) by (simp add: legacy_cache_def get_cache_file_path_def)
  show "files legacy_cache ''/music/kit.zip'' = Some demo_archive"
    by (simp add: legacy_cache_def demo_cache_def)
  show "\<not> readonly legacy_cache p"
    by (simp add: legacy_cache_def demo_cache_def)
  show "''/music/kit.zip'' \<in> set (map fst (cache_index legacy_cache))"
    by (simp add: legacy_cache_def)
  show "load_cache ''/music/kit.zip'' legacy_cache = json_load legacy_entry"
    unfolding load_cache_def cf by (simp add: legacy_cache_def)
qed


theorem legacy_entry_upgraded_witness:
  "fst (get_cached_metadata ''/music/kit.zip'' legacy_cache) = Inr plain_payload \<and>
   py_contains (load_cache ''/music/kit.zip'' (snd (get_cached_metadata ''/music/kit.zip'' legacy_cache)))
      ''file_stats'' = Inr True \<and>
   get_cached_metadata ''/music/kit.zip'' (snd (get_cached_metadata ''/music/kit.zip'' legacy_cache))
     = (Inr plain_payload, snd (get_cached_metadata ''/music/kit.zip'' legacy_cache))"
proof -
  let ?kvs = "[(''checksum'', PStr ''9f86d081884c7d65''), (''size'', PInt 2048),
               (''metadata'', plain_payload), (''timestamp'', PFloat 1600000000)]"
  have lc: "load_cache ''/music/kit.zip'' legacy_cache = PDict ?kvs"
    by (simp add: legacy_cache_facts(5) legacy_entry_def plain_payload_def dict_of_pairs_def)
  have h3: "''file_stats'' \<notin> fst ` set ?kvs" and h4: "''checksum'' \<in> fst ` set ?kvs"
    and h5: "map_of ?kvs ''size'' = Some (PInt 2048)"
    and h7: "map_of ?kvs ''metadata'' = Some plain_payload"
    by simp_all
  have h6: "py_int_eq (int (st_size demo_archive)) (PInt 2048)"
    by (simp add: demo_archive_def)
  have h9: "\<not> readonly legacy_cache (get_cache_file_path legacy_cache ''/music/kit.zip'')"
    by (rule legacy_cache_facts)
  note up = legacy_entry_upgraded[OF legacy_cache_facts(4) lc h3 h4 h5 h6 h7 legacy_cache_facts(2) h9,
      unfolded Let_def]
  from up have g0: "get_cached_metadata ''/music/kit.zip'' legacy_cache
      = (Inr plain_payload, save_cache ''/music/kit.zip'' (PDict (AList.update ''file_stats''
           (stats_dict (int (st_size demo_archive), py_int_of_float (st_mtime demo_archive))) ?kvs))
           legacy_cache)"
    by blast
  from up show ?thesis
    unfolding g0 by simp
qed

lemma remove_from_cache_file:
  assumes "map_of (cache_index s) A = Some cf" "\<not> readonly s cf" "cf \<noteq> cache_index_file s"
  shows "files (remove_from_cache A s) cf = None"
  using assms
  by (auto simp: remove_from_cache_def Let_def fs_remove_def save_cache_index_files)

lemma get_cached_metadata_fingerprint:
  assumes idx: "A \<in> set (map fst (cache_index s))" and lc: "load_cache A s = PDict kvs"
    and fs: "map_of kvs ''file_stats'' = Some (stats_dict (stored_size, stored_mtime))"
    and f: "files s A = Some f"
  shows "get_cached_metadata A s =
     (if int (st_size f) = stored_size \<and> py_int_of_float (st_mtime f) = stored_mtime
      then (py_getitem (PDict kvs) ''metadata'', s)
      else (Inr PNone, remove_from_cache A s))"
proof -
  have ne: "kvs \<noteq> []" using fs by auto
  have key: "''file_stats'' \<in> fst ` set kvs"
    using fs by (metis map_of_eq_None_iff option.distinct(1))
  have gi: "py_getitem (PDict kvs) ''file_stats'' = Inr (stats_dict (stored_size, stored_mtime))"
    using fs by simp
  show ?thesis
    unfolding get_cached_metadata_def
    using idx lc f ne key gi
    by (simp add: calculate_file_stats_def Let_def stats_dict_items del: py_getitem.simps)
qed

lemma cached_cache_facts:
  "get_cache_file_path cached_cache ''/music/kit.zip'' = ''/cache/kit.zip.cache''"
  "map_of (cache_index cached_cache) ''/music/kit.zip'' = Some ''/cache/kit.zip.cache''"
  "files cached_cache ''/music/kit.zip'' = Some demo_archive"
  "load_cache ''/music/kit.zip'' cached_cache =
     PDict [(''file_stats'', stats_dict (2048, 1700000000)), (''metadata'', plain_payload),
            (''timestamp'', PFloat 1700000100)]"
  "\<not> readonly cached_cache p"
proof -
  show cf: "get_cache_file_path cached_cache ''/music/kit.zip'' = ''/cache/kit.zip.cache''"
    using demo_cache_facts(3) by (simp add: cached_cache_def get_cache_file_path_def)
  show "map_of (cache_index cached_cache) ''/music/kit.zip'' = Some ''/cache/kit.zip.cache''"
    by (simp add: cached_cache_def)
  show "files cached_cache ''/music/kit.zip'' = Some demo_archive"
    by (simp add: cached_cache_def demo_cache_def)
  show "load_cache ''/music/kit.zip'' cached_cache =
     PDict [(''file_stats'', stats_dict (2048, 1700000000)), (''metadata'', plain_payload),
            (''timestamp'', PFloat 1700000100)]"
    unfolding load_cache_def cf
    by (simp add: cached_cache_def fingerprint_entry_def stats_dict_def plain_payload_def
        dict_of_pairs_def)
  show "\<not> readonly cached_cache p"
    by (simp add: cached_cache_def demo_cache_def)
qed

lemma stale_cache_facts:
  "get_cache_file_path stale_cache ''/music/kit.zip'' = ''/cache/kit.zip.cache''"
  "map_of (cache_index stale_cache) ''/music/kit.zip'' = Some ''/cache/kit.zip.cache''"
  "files stale_cache ''/music/kit.zip'' = Some (demo_archive\<lparr>st_size := 4096\<rparr>)"
  "load_cache ''/music/kit.zip'' stale_cache =
     PDict [(''file_stats'', stats_dict (2048, 1700000000)), (''metadata'', plain_payload),
            (''timestamp'', PFloat 1700000100)]"
  "\<not> readonly stale_cache p"
proof -
  show cf: "get_cache_file_path stale_cache ''/music/kit.zip'' = ''/cache/kit.zip.cache''"
    using cached_cache_facts(1) by (simp add: stale_cache_def get_cache_file_path_def)
  show "map_of (cache_index stale_cache) ''/music/kit.zip'' = Some ''/cache/kit.zip.cache''"
    using cached_cache_facts(2) by (simp add: stale_cache_def)
  show "files stale_cache ''/music/kit.zip'' = Some (demo_archive\<lparr>st_size := 4096\<rparr>)"
    by (simp add: stale_cache_def)
  have "load_cache ''/music/kit.zip'' stale_cache = load_cache ''/music/kit.zip'' cached_cache"
    unfolding load_cache_def cf cached_cache_facts(1) by (simp add: stale_cache_def)
  then show "load_cache ''/music/kit.zip'' stale_cache =
     PDict [(''file_stats'', stats_dict (2048, 1700000000)), (''metadata'', plain_payload),
            (''timestamp'', PFloat 1700000100)]"
    by (simp add: cached_cache_facts(4))
  show "\<not> readonly stale_cache p"
    using cached_cache_facts(5) by (simp add: stale_cache_def)
qed

lemma scan_payload_roundtrip:
  "\<exists>fm'. json_roundtrip (scan_payload zf fm) =
     PDict [(''audio_files'', PList (map PStr (scan_audio_files (namelist zf)))),
            (''total_files'', PInt (int (length zf))),
            (''file_metadata'', fm')]"
  by (simp add: json_roundtrip_def scan_payload_def dict_of_pairs_def comp_def)

lemma first_open_scan_valid:
  assumes first: "load_zip A s = (Inr r1, s1)"
    and miss: "get_cached_metadata A (cache_manager s) = (Inr PNone, c1)"
    and closed: "A \<notin> set (map fst (open_zips s))"
    and writable: "\<not> readonly (cache_manager s) (get_cache_file_path (cache_manager s) A)"
    and noclash: "A \<noteq> cache_index_file (cache_manager s)"
  shows "\<exists>zf fm. zipfile_open A c1 = Inr zf \<and> r1 = scan_stats \<and>
           entry_valid A (cache_manager s1) (json_roundtrip (scan_payload zf fm))"
proof -
  obtain zf fm n where zf: "zipfile_open A c1 = Inr zf" and r1: "r1 = scan_stats"
    and s1: "s1 = s\<lparr>cache_manager := snd (cache_metadata A (scan_payload zf fm) c1),
                      open_zips := AList.update A zf (open_zips s), zip_io := n\<rparr>"
    using load_zip_first_scan[OF first miss closed] by blast
  obtain f where f: "files c1 A = Some f"
    using zipfile_open_exists[OF zf] by auto
  note env = get_cached_metadata_env[OF miss]
  have w1: "\<not> readonly c1 (get_cache_file_path c1 A)"
    using writable env by (simp add: get_cache_file_path_def)
  have n1: "A \<noteq> cache_index_file c1"
    using noclash env by (simp add: cache_index_file_def)
  have "entry_valid A (snd (cache_metadata A (scan_payload zf fm) c1)) (json_roundtrip (scan_payload zf fm))"
    by (rule cache_metadata_valid[OF f w1 n1])
  then show ?thesis
    using zf r1 s1 by auto
qed

lemma first_open_then_list:
  assumes first: "load_zip A s = (Inr r1, s1)"
    and miss: "get_cached_metadata A (cache_manager s) = (Inr PNone, c1)"
    and closed: "A \<notin> set (map fst (open_zips s))"
    and writable: "\<not> readonly (cache_manager s) (get_cache_file_path (cache_manager s) A)"
    and noclash: "A \<noteq> cache_index_file (cache_manager s)"
  shows "\<exists>zf. zipfile_open A c1 = Inr zf \<and>
           list_audio_files A s1 = (Inr (PList (map PStr (scan_audio_files (namelist zf)))), s1)"
proof -
  obtain zf fm where zf: "zipfile_open A c1 = Inr zf"
    and v: "entry_valid A (cache_manager s1) (json_roundtrip (scan_payload zf fm))"
    using first_open_scan_valid[OF assms] by blast
  obtain fm' where rt: "json_roundtrip (scan_payload zf fm) =
     PDict [(''audio_files'', PList (map PStr (scan_audio_files (namelist zf)))),
            (''total_files'', PInt (int (length zf))), (''file_metadata'', fm')]"
    using scan_payload_roundtrip by blast
  have "list_audio_files A s1 = (Inr (PList (map PStr (scan_audio_files (namelist zf)))), s1)"
    using list_audio_files_valid[OF v] by (simp add: rt)
  with zf show ?thesis by blast
qed

lemma first_open_cached_list:
  assumes first: "load_zip A s = (Inr r1, s1)"
    and miss: "get_cached_metadata A (cache_manager s) = (Inr PNone, c1)"
    and closed: "A \<notin> set (map fst (open_zips s))"
    and writable: "\<not> readonly (cache_manager s) (get_cache_file_path (cache_manager s) A)"
    and noclash: "A \<noteq> cache_index_file (cache_manager s)"
  shows "\<exists>zf m. zipfile_open A c1 = Inr zf \<and>
           get_cached_metadata A (cache_manager s1) = (Inr m, cache_manager s1) \<and>
           py_getitem m ''audio_files'' = Inr (PList (map PStr (scan_audio_files (namelist zf)))) \<and>
           (\<forall>z. cache_manager z = cache_manager s1 \<longrightarrow>
                list_audio_files A z = (Inr (PList (map PStr (scan_audio_files (namelist zf)))), z))"
proof -
  obtain zf fm where zf: "zipfile_open A c1 = Inr zf"
    and v: "entry_valid A (cache_manager s1) (json_roundtrip (scan_payload zf fm))"
    using first_open_scan_valid[OF assms] by blast
  obtain fm' where rt: "json_roundtrip (scan_payload zf fm) =
     PDict [(''audio_files'', PList (map PStr (scan_audio_files (namelist zf)))),
            (''total_files'', PInt (int (length zf))), (''file_metadata'', fm')]"
    using scan_payload_roundtrip by blast
  have g: "get_cached_metadata A (cache_manager s1)
             = (Inr (json_roundtrip (scan_payload zf fm)), cache_manager s1)"
    by (rule get_cached_metadata_valid[OF v])
  have gi: "py_getitem (json_roundtrip (scan_payload zf fm)) ''audio_files''
              = Inr (PList (map PStr (scan_audio_files (namelist zf))))"
    by (simp add: rt)
  have "list_audio_files A z = (Inr (PList (map PStr (scan_audio_files (namelist zf)))), z)"
    if "cache_manager z = cache_manager s1" for z
  proof -
    have "entry_valid A (cache_manager z) (json_roundtrip (scan_payload zf fm))"
      using v that by simp
    from list_audio_files_valid[OF this] show ?thesis by (simp add: rt)
  qed
  with zf g gi show ?thesis by blast
qed

lemma load_zip_lookup_raises:
  assumes "files (cache_manager s) A \<noteq> None"
    and "get_cached_metadata A (cache_manager s) = (Inl e, c1)"
  shows "load_zip A s = (Inl e, s\<lparr>cache_manager := c1\<rparr>)"
  using assms by (simp add: load_zip_def del: not_None_eq)

lemma load_zip_lookup_hits:
  assumes "files (cache_manager s) A \<noteq> None"
    and "get_cached_metadata A (cache_manager s) = (Inr cm, c1)" and "cm \<noteq> PNone"
  shows "load_zip A s = (Inr hit_stats, s\<lparr>cache_manager := c1\<rparr>)"
  using assms by (simp add: load_zip_def hit_stats_def del: not_None_eq)

lemma first_open_valid:
  assumes first: "load_zip A s = (Inr r1, s1)"
    and closed: "A \<notin> set (map fst (open_zips s))"
    and writable: "\<not> readonly (cache_manager s) (get_cache_file_path (cache_manager s) A)"
    and noclash: "A \<noteq> cache_index_file (cache_manager s)"
  shows "\<exists>m. m \<noteq> PNone \<and> entry_valid A (cache_manager s1) m"
proof -
  have ex: "files (cache_manager s) A \<noteq> None"
    using first by (auto simp: load_zip_def split: if_splits)
  obtain r c1 where g: "get_cached_metadata A (cache_manager s) = (r, c1)"
    by (cases "get_cached_metadata A (cache_manager s)") auto
  show ?thesis
  proof (cases r)
    case (Inl e)
    with g first load_zip_lookup_raises[OF ex] show ?thesis by simp
  next
    case (Inr cm)
    show ?thesis
    proof (cases "cm = PNone")
      case True
      obtain zf fm where v: "entry_valid A (cache_manager s1) (json_roundtrip (scan_payload zf fm))"
        using first_open_scan_valid[OF first _ closed writable noclash] g Inr True by blast
      moreover have "json_roundtrip (scan_payload zf fm) \<noteq> PNone"
        using scan_payload_roundtrip[of zf fm] by auto
      ultimately show ?thesis by blast
    next
      case False
      then have "s1 = s\<lparr>cache_manager := c1\<rparr>"
        using g Inr first load_zip_lookup_hits[OF ex, of cm c1] by simp
      moreover have "entry_valid A c1 cm"
        using entry_valid_after_hit[OF _ False writable] g Inr by simp
      ultimately show ?thesis using False by auto
    qed
  qed
qed

lemma get_cached_metadata_empty:
  "\<not> py_truthy (load_cache A c) \<Longrightarrow> get_cached_metadata A c = (Inr PNone, c)"
  by (simp add: get_cached_metadata_def)

lemma load_zip_lookup_held:
  assumes "files (cache_manager s) A \<noteq> None"
    and "get_cached_metadata A (cache_manager s) = (Inr PNone, c1)"
    and "A \<in> set (map fst (open_zips s))"
  shows "load_zip A s = (Inr \<lparr>used_cache = True, steps = [''opening'']\<rparr>, s\<lparr>cache_manager := c1\<rparr>)"
  using assms by (simp add: load_zip_def del: not_None_eq)

lemma miss_same_stats:
  assumes q: "get_cached_metadata A c = (Inr PNone, c)"
    and w: "\<not> readonly c (get_cache_file_path c A)"
    and f: "files c A = Some f" "st_size f' = st_size f"
      "py_int_of_float (st_mtime f') = py_int_of_float (st_mtime f)"
  shows "get_cached_metadata A (c\<lparr>files := (files c)(A \<mapsto> f')\<rparr>) =
           (Inr PNone, c\<lparr>files := (files c)(A \<mapsto> f')\<rparr>)"
proof -
  let ?c' = "c\<lparr>files := (files c)(A \<mapsto> f')\<rparr>"
  have lc: "load_cache A ?c' = load_cache A c"
    using cache_file_neq_archive[of c A] by (simp add: load_cache_def)
  have "A \<notin> set (map fst (cache_index c)) \<or> \<not> py_truthy (load_cache A c) \<or> entry_valid A c PNone"
    using q
  proof (cases rule: get_cached_metadata_cases)
    case miss
    then show ?thesis by blast
  next
    case removed
    then show ?thesis using remove_from_cache_index[of A c] by simp
  next
    case valid
    then show ?thesis by simp
  next
    case (legacy kvs f0)
    then show ?thesis using legacy_valid_after[of A c kvs f0 PNone] w by simp
  qed
  then consider (unregistered) "A \<notin> set (map fst (cache_index c))"
    | (empty) "\<not> py_truthy (load_cache A c)" | (null) "entry_valid A c PNone"
    by blast
  then show ?thesis
  proof cases
    case unregistered
    then show ?thesis by (simp add: get_cached_metadata_unregistered)
  next
    case empty
    have "\<not> py_truthy (load_cache A ?c')" unfolding lc by (rule empty)
    then show ?thesis by (rule get_cached_metadata_empty)
  next
    case null
    show ?thesis
      by (rule get_cached_metadata_valid[OF entry_valid_same_stats[OF null f]])
  qed
qed

lemma first_open_held:
  assumes first: "load_zip A s = (Inr r1, s1)"
    and miss: "get_cached_metadata A (cache_manager s) = (Inr PNone, c1)"
    and held: "map_of (open_zips s) A = Some zf"
  shows "r1 = \<lparr>used_cache = True, steps = [''opening'']\<rparr> \<and> s1 = s\<lparr>cache_manager := c1\<rparr> \<and>
         list_audio_files A s1 = (Inr (PList (map PStr (scan_audio_files (namelist zf)))), s1)"
proof -
  have ex: "files (cache_manager s) A \<noteq> None"
    using first by (auto simp: load_zip_def split: if_splits)
  have mem: "A \<in> set (map fst (open_zips s))"
    using held by (metis map_of_eq_None_iff option.distinct(1) set_map)
  have a: "r1 = \<lparr>used_cache = True, steps = [''opening'']\<rparr>" "s1 = s\<lparr>cache_manager := c1\<rparr>"
    using load_zip_lookup_held[OF ex miss mem] first by simp_all
  have g1: "get_cached_metadata A (cache_manager s1) = (Inr PNone, c1)"
    using get_cached_metadata_idem[OF miss] a(2) by simp
  have e: "ensure_zip_open A s1 = (Inr zf, s1)"
    by (rule ensure_zip_open_held) (simp add: a(2) held)
  have "s1\<lparr>cache_manager := c1\<rparr> = s1" using a(2) by simp
  then have "list_audio_files A s1 = (Inr (PList (map PStr (scan_audio_files (namelist zf)))), s1)"
    using list_audio_files_miss[OF g1] e by simp
  with a show ?thesis by simp
qed

text \<open>
  C1: after a successful \<open>load_zip\<close> (the cache entry file can be written; the archive is
  not the cache's index file) and the listing that follows it, let the archive's file be
  replaced by any file of the same size and the same whole-second modification time.
  Then a second \<open>load_zip\<close> succeeds with \<open>used_cache\<close> set and leaves the whole state
  as it was (no archive is opened, no entry read, \<open>zip_io\<close> and \<open>open_zips\<close> unchanged),
  and \<open>list_audio_files\<close> returns the same list as after the first open, again without
  changing the state. When the manager did not hold the archive open before the first
  \<open>load_zip\<close>, the second one returns through the cache-lookup branch.
\<close>

theorem second_open_is_cache_hit:
  assumes first: "load_zip A s = (Inr r1, s1)"
    and writable: "\<not> readonly (cache_manager s) (get_cache_file_path (cache_manager s) A)"
    and noclash: "A \<noteq> cache_index_file (cache_manager s)"
    and listing: "list_audio_files A s1 = (Inr L, s2)"
    and unchanged: "files (cache_manager s2) A = Some f" "st_size f' = st_size f"
      "py_int_of_float (st_mtime f') = py_int_of_float (st_mtime f)"
  shows "let s2' = s2\<lparr>cache_manager := (cache_manager s2)\<lparr>files := (files (cache_manager s2))(A \<mapsto> f')\<rparr>\<rparr>
         in \<exists>r2. load_zip A s2' = (Inr r2, s2') \<and> used_cache r2 \<and>
                 list_audio_files A s2' = (Inr L, s2') \<and>
                 (A \<notin> set (map fst (open_zips s)) \<longrightarrow> r2 = hit_stats)"
proof -
  let ?s2' = "s2\<lparr>cache_manager := (cache_manager s2)\<lparr>files := (files (cache_manager s2))(A \<mapsto> f')\<rparr>\<rparr>"
  have ex: "files (cache_manager s) A \<noteq> None"
    using first by (auto simp: load_zip_def split: if_splits)
  obtain r c1 where g: "get_cached_metadata A (cache_manager s) = (r, c1)"
    by (cases "get_cached_metadata A (cache_manager s)") auto
  obtain cm where r: "r = Inr cm"
    using g first load_zip_lookup_raises[OF ex, of _ c1] by (cases r) auto
  have "load_zip A ?s2' = (Inr hit_stats, ?s2') \<and> list_audio_files A ?s2' = (Inr L, ?s2') \<or>
        A \<in> set (map fst (open_zips s)) \<and>
        load_zip A ?s2' = (Inr \<lparr>used_cache = True, steps = [''opening'']\<rparr>, ?s2') \<and>
        list_audio_files A ?s2' = (Inr L, ?s2')"
  proof (cases "cm = PNone \<and> A \<in> set (map fst (open_zips s))")
    case True
    then obtain zf where held: "map_of (open_zips s) A = Some zf"
      by (metis map_of_eq_None_iff not_None_eq set_map)
    have miss: "get_cached_metadata A (cache_manager s) = (Inr PNone, c1)"
      using g r True by simp
    note fo = first_open_held[OF first miss held]
    have s2: "s2 = s1" and L: "L = PList (map PStr (scan_audio_files (namelist zf)))"
      using fo listing by simp_all
    have s1: "s1 = s\<lparr>cache_manager := c1\<rparr>" using fo by simp
    have c: "cache_manager s2 = c1" using s1 s2 by simp
    note env = get_cached_metadata_env[OF miss]
    have w1: "\<not> readonly c1 (get_cache_file_path c1 A)"
      using writable env by (simp add: get_cache_file_path_def)
    have q: "get_cached_metadata A c1 = (Inr PNone, c1)"
      by (rule get_cached_metadata_idem[OF miss])
    have fc: "files c1 A = Some f" using unchanged(1) c by simp
    have q': "get_cached_metadata A (cache_manager ?s2') = (Inr PNone, cache_manager ?s2')"
      using miss_same_stats[OF q w1 fc unchanged(2,3)] c by simp
    have held': "map_of (open_zips ?s2') A = Some zf"
      using held s1 s2 by simp
    have mem': "A \<in> set (map fst (open_zips ?s2'))"
      using True s1 s2 by simp
    have ex': "files (cache_manager ?s2') A \<noteq> None" by simp
    have a: "load_zip A ?s2' = (Inr \<lparr>used_cache = True, steps = [''opening'']\<rparr>, ?s2')"
      using load_zip_lookup_held[OF ex' q' mem'] by simp
    have e: "ensure_zip_open A ?s2' = (Inr zf, ?s2')"
      by (rule ensure_zip_open_held[OF held'])
    have b: "list_audio_files A ?s2' = (Inr L, ?s2')"
      using list_audio_files_miss[OF q'] e L by simp
    show ?thesis using True a b by blast
  next
    case False
    have "\<exists>m. m \<noteq> PNone \<and> entry_valid A (cache_manager s1) m"
    proof (cases "cm = PNone")
      case True
      with False have closed: "A \<notin> set (map fst (open_zips s))" by simp
      show ?thesis
        by (rule first_open_valid[OF first closed writable noclash])
    next
      case nonnull: False
      then have "s1 = s\<lparr>cache_manager := c1\<rparr>"
        using g r first load_zip_lookup_hits[OF ex, of cm c1] by simp
      moreover have "entry_valid A c1 cm"
        using entry_valid_after_hit[OF _ nonnull writable] g r by simp
      ultimately show ?thesis using nonnull by auto
    qed
    then obtain m where m: "m \<noteq> PNone" and v1: "entry_valid A (cache_manager s1) m"
      by blast
    note l1 = list_audio_files_valid[OF v1]
    obtain from_cache where fc: "(if py_truthy m then py_contains m ''audio_files'' else Inr False) = Inr from_cache"
      using l1 listing
      by (cases "if py_truthy m then py_contains m ''audio_files'' else Inr False") auto
    have same: "cache_manager s2 = cache_manager s1 \<and>
        (from_cache \<longrightarrow> py_getitem m ''audio_files'' = Inr L) \<and>
        (\<not> from_cache \<longrightarrow> (\<exists>zf. map_of (open_zips s2) A = Some zf \<and>
                                   L = PList (map PStr (scan_audio_files (namelist zf)))))"
    proof (cases from_cache)
      case True
      with l1 listing fc show ?thesis by simp
    next
      case False
      with l1 listing fc obtain zf where
        ez: "ensure_zip_open A s1 = (Inr zf, s2)" "L = PList (map PStr (scan_audio_files (namelist zf)))"
        by (auto split: prod.splits sum.splits)
      with ensure_zip_open_result[OF ez(1)] False show ?thesis by auto
    qed
    have v2: "entry_valid A (cache_manager s2) m"
      using v1 same by simp
    have v2': "entry_valid A (cache_manager ?s2') m"
      using entry_valid_same_stats[OF v2 unchanged] by simp
    have a: "load_zip A ?s2' = (Inr hit_stats, ?s2')"
      by (rule load_zip_valid[OF v2' m])
    have b: "list_audio_files A ?s2' = (Inr L, ?s2')"
    proof (cases from_cache)
      case True
      with list_audio_files_valid[OF v2'] fc same show ?thesis by simp
    next
      case False
      with same obtain zf where zf: "map_of (open_zips s2) A = Some zf"
          "L = PList (map PStr (scan_audio_files (namelist zf)))"
        by blast
      have "ensure_zip_open A ?s2' = (Inr zf, ?s2')"
        by (rule ensure_zip_open_held) (simp add: zf(1))
      with list_audio_files_valid[OF v2'] fc False zf(2) show ?thesis by simp
    qed
    show ?thesis using a b by blast
  qed
  then show ?thesis
    unfolding Let_def by (auto simp: hit_stats_def)
qed

lemma list_audio_files_live:
  assumes miss: "get_cached_metadata A (cache_manager s) = (Inr PNone, c1)"
    and closed: "A \<notin> set (map fst (open_zips s))"
    and zf: "zipfile_open A c1 = Inr zf"
  shows "fst (list_audio_files A s) = Inr (PList (map PStr (scan_audio_files (namelist zf))))"
proof -
  have "map_of (open_zips s) A = None"
    using closed by (simp add: map_of_eq_None_iff)
  then have "fst (ensure_zip_open A (s\<lparr>cache_manager := c1\<rparr>)) = Inr zf"
    using zf zipfile_open_exists[OF zf]
    by (simp add: ensure_zip_open_def Let_def del: not_None_eq)
  then show ?thesis
    unfolding list_audio_files_miss[OF miss]
    by (cases "ensure_zip_open A (s\<lparr>cache_manager := c1\<rparr>)") auto
qed

text \<open>
  C2: the listing is ordered by folder, compared in lower case, and within each folder
  by base name, compared in lower case; the spec's example gives the spec's result. The
  cache read path gives the list of the live scan, in the same order: after a first
  \<open>load_zip\<close> that scanned the archive (entry file writable, archive not the cache's
  index file), the list that \<open>get_cached_metadata\<close> serves under \<open>audio_files\<close> is the
  list that scanning the archive gives, and \<open>list_audio_files\<close> returns it on every
  manager over that cache, whether it holds the archive open or not, without opening
  anything (the state is unchanged).
\<close>

theorem listing_order:
  "sorted (map (\<lambda>n. py_lower (dirname n)) (scan_audio_files names)) \<and>
   (\<forall>folder. sorted (map (\<lambda>n. py_lower (basename n))
                  (filter (\<lambda>n. dirname n = folder) (scan_audio_files names)))) \<and>
   scan_audio_files [''drums/kick.wav'', ''drums/Snare.wav'', ''amb/room.ogg'']
     = [''amb/room.ogg'', ''drums/kick.wav'', ''drums/Snare.wav''] \<and>
   (load_zip A s = (Inr r1, s1) \<longrightarrow>
    get_cached_metadata A (cache_manager s) = (Inr PNone, c1) \<longrightarrow>
    A \<notin> set (map fst (open_zips s)) \<longrightarrow>
    \<not> readonly (cache_manager s) (get_cache_file_path (cache_manager s) A) \<longrightarrow>
    A \<noteq> cache_index_file (cache_manager s) \<longrightarrow>
    (\<exists>zf m. zipfile_open A c1 = Inr zf \<and>
          fst (list_audio_files A s) = Inr (PList (map PStr (scan_audio_files (namelist zf)))) \<and>
          get_cached_metadata A (cache_manager s1) = (Inr m, cache_manager s1) \<and>
          py_getitem m ''audio_files'' = Inr (PList (map PStr (scan_audio_files (namelist zf)))) \<and>
          (\<forall>z. cache_manager z = cache_manager s1 \<longrightarrow>
               list_audio_files A z = (Inr (PList (map PStr (scan_audio_files (namelist zf)))), z))))"
proof (intro conjI allI impI)
  show "sorted (map (\<lambda>n. py_lower (dirname n)) (scan_audio_files names))"
    by (rule scan_folders_sorted)
  show "sorted (map (\<lambda>n. py_lower (basename n))
          (filter (\<lambda>n. dirname n = folder) (scan_audio_files names)))" for folder
    by (rule scan_within_folder_sorted)
  show "scan_audio_files [''drums/kick.wav'', ''drums/Snare.wav'', ''amb/room.ogg'']
          = [''amb/room.ogg'', ''drums/kick.wav'', ''drums/Snare.wav'']"
    by code_simp
next
  assume a: "load_zip A s = (Inr r1, s1)"
    "get_cached_metadata A (cache_manager s) = (Inr PNone, c1)"
    "A \<notin> set (map fst (open_zips s))"
    "\<not> readonly (cache_manager s) (get_cache_file_path (cache_manager s) A)"
    "A \<noteq> cache_index_file (cache_manager s)"
  obtain zf m where zf: "zipfile_open A c1 = Inr zf"
    "get_cached_metadata A (cache_manager s1) = (Inr m, cache_manager s1)"
    "py_getitem m ''audio_files'' = Inr (PList (map PStr (scan_audio_files (namelist zf))))"
    "\<forall>z. cache_manager z = cache_manager s1 \<longrightarrow>
         list_audio_files A z = (Inr (PList (map PStr (scan_audio_files (namelist zf)))), z)"
    using first_open_cached_list[OF a] by blast
  with list_audio_files_live[OF a(2,3) zf(1)]
  show "\<exists>zf m. zipfile_open A c1 = Inr zf \<and>
          fst (list_audio_files A s) = Inr (PList (map PStr (scan_audio_files (namelist zf)))) \<and>
          get_cached_metadata A (cache_manager s1) = (Inr m, cache_manager s1) \<and>
          py_getitem m ''audio_files'' = Inr (PList (map PStr (scan_audio_files (namelist zf)))) \<and>
          (\<forall>z. cache_manager z = cache_manager s1 \<longrightarrow>
               list_audio_files A z = (Inr (PList (map PStr (scan_audio_files (namelist zf)))), z))"
    by blast
qed


lemma demo_scan: "PList (map PStr (scan_audio_files (namelist (map demo_entry demo_names)))) = demo_listing"
proof -
  have "namelist (map demo_entry demo_names) = demo_names"
    by (simp add: namelist_def demo_entry_def comp_def)
  moreover have "scan_audio_files demo_names = [''amb/room.ogg'', ''drums/kick.wav'', ''drums/Snare.wav'']"
    unfolding demo_names_def by code_simp
  ultimately show ?thesis by (simp add: demo_listing_def)
qed

lemma demo_manager_facts:
  "cache_manager (fresh_manager c) = c"
  "A \<notin> set (map fst (open_zips (fresh_manager c)))"
  "get_cached_metadata ''/music/kit.zip'' demo_cache = (Inr PNone, demo_cache)"
  "zipfile_open ''/music/kit.zip'' demo_cache = Inr (map demo_entry demo_names)"
  "filter (\<lambda>z. has_audio_extension (filename z)) (map demo_entry demo_names) \<noteq> []"
proof -
  show "cache_manager (fresh_manager c) = c"
    by (simp add: fresh_manager_def)
  show "A \<notin> set (map fst (open_zips (fresh_manager c)))"
    by (simp add: fresh_manager_def)
  show "get_cached_metadata ''/music/kit.zip'' demo_cache = (Inr PNone, demo_cache)"
    by (rule get_cached_metadata_unregistered) (simp add: demo_cache_def)
  show "zipfile_open ''/music/kit.zip'' demo_cache = Inr (map demo_entry demo_names)"
    by (simp add: zipfile_open_def demo_cache_facts demo_archive_def)
  have "has_audio_extension ''drums/kick.wav''"
    by code_simp
  then show "filter (\<lambda>z. has_audio_extension (filename z)) (map demo_entry demo_names) \<noteq> []"
    by (simp add: demo_names_def demo_entry_def)
qed

lemma demo_first_open:
  "load_zip ''/music/kit.zip'' (fresh_manager demo_cache)
     = (Inr scan_stats, snd (load_zip ''/music/kit.zip'' (fresh_manager demo_cache)))"
proof -
  have ex: "files (cache_manager (fresh_manager demo_cache)) ''/music/kit.zip'' \<noteq> None"
    by (simp add: demo_manager_facts demo_cache_facts)
  obtain fm n where "load_zip ''/music/kit.zip'' (fresh_manager demo_cache) = (Inr scan_stats,
      (fresh_manager demo_cache)\<lparr>cache_manager := snd (cache_metadata ''/music/kit.zip''
           (scan_payload (map demo_entry demo_names) fm) demo_cache),
        open_zips := AList.update ''/music/kit.zip'' (map demo_entry demo_names)
           (open_zips (fresh_manager demo_cache)), zip_io := n\<rparr>)"
    using load_zip_scan[of "''/music/kit.zip''" "fresh_manager demo_cache" demo_cache
        "map demo_entry demo_names", OF _ demo_manager_facts(2) ex demo_manager_facts(4,5)]
      demo_manager_facts(1,3)
    by auto
  then show ?thesis by simp
qed

lemma demo_hyps:
  "get_cached_metadata ''/music/kit.zip'' (cache_manager (fresh_manager demo_cache)) = (Inr PNone, demo_cache)"
  "\<not> readonly (cache_manager (fresh_manager demo_cache))
       (get_cache_file_path (cache_manager (fresh_manager demo_cache)) ''/music/kit.zip'')"
  "''/music/kit.zip'' \<noteq> cache_index_file (cache_manager (fresh_manager demo_cache))"
  by (simp_all add: demo_manager_facts demo_cache_facts)

lemma demo_list_after_open:
  "list_audio_files ''/music/kit.zip'' (snd (load_zip ''/music/kit.zip'' (fresh_manager demo_cache)))
     = (Inr demo_listing, snd (load_zip ''/music/kit.zip'' (fresh_manager demo_cache)))"
  using first_open_then_list[OF demo_first_open demo_hyps(1) demo_manager_facts(2) demo_hyps(2,3)]
  by (auto simp: demo_manager_facts demo_scan)

theorem listing_order_witness:
  "fst (list_audio_files ''/music/kit.zip'' (fresh_manager demo_cache)) = Inr demo_listing \<and>
   list_audio_files ''/music/kit.zip'' (snd (load_zip ''/music/kit.zip'' (fresh_manager demo_cache)))
     = (Inr demo_listing, snd (load_zip ''/music/kit.zip'' (fresh_manager demo_cache))) \<and>
   list_audio_files ''/music/kit.zip''
       (fresh_manager (cache_manager (snd (load_zip ''/music/kit.zip'' (fresh_manager demo_cache)))))
     = (Inr demo_listing,
        fresh_manager (cache_manager (snd (load_zip ''/music/kit.zip'' (fresh_manager demo_cache)))))"
proof -
  let ?s1 = "snd (load_zip ''/music/kit.zip'' (fresh_manager demo_cache))"
  from listing_order[of demo_names "''/music/kit.zip''" "fresh_manager demo_cache" scan_stats
      ?s1 demo_cache]
    demo_first_open demo_hyps demo_manager_facts(2)
  obtain zf where zf: "zipfile_open ''/music/kit.zip'' demo_cache = Inr zf"
    "fst (list_audio_files ''/music/kit.zip'' (fresh_manager demo_cache))
       = Inr (PList (map PStr (scan_audio_files (namelist zf))))"
    "\<forall>z. cache_manager z = cache_manager ?s1 \<longrightarrow>
       list_audio_files ''/music/kit.zip'' z
         = (Inr (PList (map PStr (scan_audio_files (namelist zf)))), z)"
    by blast
  have l: "PList (map PStr (scan_audio_files (namelist zf))) = demo_listing"
    using zf(1) demo_scan by (simp add: demo_manager_facts(4))
  have "cache_manager (fresh_manager (cache_manager ?s1)) = cache_manager ?s1"
    by (rule demo_manager_facts(1))
  with zf(2,3) l show ?thesis by simp
qed

text \<open>
  C6 fails on the code: \<open>list_audio_files\<close> tests the prefixes \<open>__MACOSX\<close> and
  \<open>._\<close> on the whole name of the entry. The spec's example, where both are at the
  front of the name, gives the one entry \<open>audio1.wav\<close>; a hidden file in a folder and
  a file under a metadata folder deeper in the archive are listed.
\<close>

theorem nested_hidden_entries_listed:
  "scan_audio_files [''__MACOSX/._audio1.wav'', ''audio1.wav''] = [''audio1.wav''] \<and>
   scan_audio_files nested_names = [''audio1.wav'', ''sub/._x.wav'', ''x/__MACOSX/y.wav''] \<and>
   fst (list_audio_files ''/music/kit.zip'' (fresh_manager nested_cache))
     = Inr (PList [PStr ''audio1.wav'', PStr ''sub/._x.wav'', PStr ''x/__MACOSX/y.wav''])"
proof -
  have a: "scan_audio_files [''__MACOSX/._audio1.wav'', ''audio1.wav''] = [''audio1.wav'']"
    by code_simp
  have b: "scan_audio_files nested_names = [''audio1.wav'', ''sub/._x.wav'', ''x/__MACOSX/y.wav'']"
    unfolding nested_names_def by code_simp
  have miss: "get_cached_metadata ''/music/kit.zip'' (cache_manager (fresh_manager nested_cache))
                = (Inr PNone, nested_cache)"
    unfolding demo_manager_facts(1)
    by (rule get_cached_metadata_unregistered) (simp add: nested_cache_def demo_cache_def)
  have zf: "zipfile_open ''/music/kit.zip'' nested_cache = Inr (map demo_entry nested_names)"
    by (simp add: zipfile_open_def nested_cache_def)
  have nl: "namelist (map demo_entry nested_names) = nested_names"
    by (simp add: namelist_def demo_entry_def comp_def)
  have c: "fst (list_audio_files ''/music/kit.zip'' (fresh_manager nested_cache))
     = Inr (PList [PStr ''audio1.wav'', PStr ''sub/._x.wav'', PStr ''x/__MACOSX/y.wav''])"
    using list_audio_files_live[OF miss demo_manager_facts(2) zf] by (simp add: nl b)
  from a b c show ?thesis by blast
qed



lemma touched_same_stats:
  "st_size touched_archive = st_size demo_archive"
  "py_int_of_float (st_mtime touched_archive) = py_int_of_float (st_mtime demo_archive)"
proof -
  show "st_size touched_archive = st_size demo_archive"
    by (simp add: touched_archive_def demo_archive_def)
  have "py_int_of_float (1700000000 + 1 / 2) = py_int_of_float 1700000000"
    by code_simp
  then show "py_int_of_float (st_mtime touched_archive) = py_int_of_float (st_mtime demo_archive)"
    by (simp add: touched_archive_def demo_archive_def)
qed

lemma demo_archive_after_open:
  "files (cache_manager (snd (load_zip ''/music/kit.zip'' (fresh_manager demo_cache)))) ''/music/kit.zip''
     = Some demo_archive"
proof -
  have ex: "files (cache_manager (fresh_manager demo_cache)) ''/music/kit.zip'' \<noteq> None"
    by (simp add: demo_manager_facts demo_cache_facts)
  obtain fm n where "load_zip ''/music/kit.zip'' (fresh_manager demo_cache) = (Inr scan_stats,
      (fresh_manager demo_cache)\<lparr>cache_manager := snd (cache_metadata ''/music/kit.zip''
           (scan_payload (map demo_entry demo_names) fm) demo_cache),
        open_zips := AList.update ''/music/kit.zip'' (map demo_entry demo_names)
           (open_zips (fresh_manager demo_cache)), zip_io := n\<rparr>)"
    using load_zip_scan[of "''/music/kit.zip''" "fresh_manager demo_cache" demo_cache
        "map demo_entry demo_names", OF _ demo_manager_facts(2) ex demo_manager_facts(4,5)]
      demo_manager_facts(1,3)
    by auto
  then have "cache_manager (snd (load_zip ''/music/kit.zip'' (fresh_manager demo_cache)))
      = snd (cache_metadata ''/music/kit.zip'' (scan_payload (map demo_entry demo_names) fm) demo_cache)"
    by simp
  then show ?thesis
    using cache_metadata_files_other[OF demo_cache_facts(1), of "''/music/kit.zip''"
        "scan_payload (map demo_entry demo_names) fm"]
    by (simp add: demo_cache_facts)
qed

theorem second_open_is_cache_hit_witness:
  "let s1 = snd (load_zip ''/music/kit.zip'' (fresh_manager demo_cache));
       s2' = s1\<lparr>cache_manager := (cache_manager s1)\<lparr>files :=
                 (files (cache_manager s1))(''/music/kit.zip'' \<mapsto> touched_archive)\<rparr>\<rparr>
   in fst (load_zip ''/music/kit.zip'' (fresh_manager demo_cache)) = Inr scan_stats \<and>
      list_audio_files ''/music/kit.zip'' s1 = (Inr demo_listing, s1) \<and>
      load_zip ''/music/kit.zip'' s2' = (Inr hit_stats, s2') \<and>
      list_audio_files ''/music/kit.zip'' s2' = (Inr demo_listing, s2')"
proof -
  have fo: "fst (load_zip ''/music/kit.zip'' (fresh_manager demo_cache)) = Inr scan_stats"
    using demo_first_open by (metis fst_conv)
  note hit = second_open_is_cache_hit[OF demo_first_open demo_hyps(2,3)
      demo_list_after_open demo_archive_after_open touched_same_stats, unfolded Let_def]
  show ?thesis
    unfolding Let_def using fo demo_list_after_open hit demo_manager_facts(2) by blast
qed

lemma twin_cache_facts:
  "files twin_cache ''/a/kit.zip'' = Some demo_archive"
  "files twin_cache ''/b/kit.zip'' = Some \<lparr>content = ZipArchive [demo_entry ''loops/bass.mp3''],
                                           st_size = 4096, st_mtime = 1700000500\<rparr>"
  "\<not> readonly twin_cache p"
  "get_cache_file_path twin_cache ''/a/kit.zip'' = ''/cache/kit.zip.cache''"
  "get_cache_file_path twin_cache ''/b/kit.zip'' = ''/cache/kit.zip.cache''"
  "cache_index_file twin_cache = ''/cache/cache_index.json''"
  "clock twin_cache = 1700001000"
  by (simp_all add: twin_cache_def get_cache_file_path_def cache_index_file_def path_join_def
      startswith_def basename_def after_last_def)

text \<open>
  C8 fails on the code: the entry file is named after the archive's base name only.
  Storing for \<open>/b/kit.zip\<close> after \<open>/a/kit.zip\<close> writes the same entry file, and the
  metadata cached for \<open>/a/kit.zip\<close>, served before, is gone after.
\<close>

theorem base_name_collision:
  "let s1 = snd (cache_metadata ''/a/kit.zip'' plain_payload twin_cache);
       s2 = snd (cache_metadata ''/b/kit.zip'' other_payload s1)
   in get_cache_file_path twin_cache ''/a/kit.zip'' = get_cache_file_path twin_cache ''/b/kit.zip'' \<and>
      get_cached_metadata ''/a/kit.zip'' s1 = (Inr plain_payload, s1) \<and>
      files s2 (get_cache_file_path twin_cache ''/a/kit.zip'')
        \<noteq> files s1 (get_cache_file_path twin_cache ''/a/kit.zip'') \<and>
      fst (get_cached_metadata ''/a/kit.zip'' s2) = Inr PNone"
proof -
  let ?A = "''/a/kit.zip''" and ?B = "''/b/kit.zip''"
  let ?fb = "\<lparr>content = ZipArchive [demo_entry ''loops/bass.mp3''], st_size = 4096, st_mtime = 1700000500\<rparr>"
  let ?s1 = "snd (cache_metadata ?A plain_payload twin_cache)"
  let ?s2 = "snd (cache_metadata ?B other_payload ?s1)"
  have wA: "\<not> readonly twin_cache (get_cache_file_path twin_cache ?A)"
    by (rule twin_cache_facts)
  have nA: "?A \<noteq> cache_index_file twin_cache"
    by (simp add: twin_cache_facts)
  have rt: "json_roundtrip plain_payload = plain_payload"
    by (rule json_roundtrip_exact) (simp_all add: plain_payload_def)
  have g1: "get_cached_metadata ?A ?s1 = (Inr plain_payload, ?s1)"
    using store_then_get[OF twin_cache_facts(1) wA nA, of plain_payload] rt by simp
  have cd1: "cache_dir ?s1 = ''/cache''"
    using cache_metadata_fields(2)[OF twin_cache_facts(1), of plain_payload]
    by (simp add: twin_cache_def)
  have cf1: "get_cache_file_path ?s1 p = get_cache_file_path twin_cache p" for p
    using cd1 by (simp add: get_cache_file_path_def twin_cache_def)
  have ro1: "readonly ?s1 = readonly twin_cache"
    by (rule cache_metadata_fields(3)[OF twin_cache_facts(1)])
  have f1A: "files ?s1 ?A = Some demo_archive"
    using cache_metadata_files_other[OF twin_cache_facts(1), of ?A plain_payload]
    by (simp add: twin_cache_facts)
  have f1B: "files ?s1 ?B = Some ?fb"
    using cache_metadata_files_other[OF twin_cache_facts(1), of ?B plain_payload]
    by (simp add: twin_cache_facts)
  have e1: "map_option content (files ?s1 ''/cache/kit.zip.cache'')
      = Some (JsonText (json_dump (PDict [(''file_stats'', stats_dict (2048, 1700000000)),
                (''metadata'', plain_payload), (''timestamp'', PFloat 1700001000)])))"
    using cache_metadata_files_entry[OF twin_cache_facts(1) wA, of plain_payload]
    by (simp add: twin_cache_facts(4,7) demo_archive_def py_int_of_float_def
        del: json_dump.simps)
  have wB: "\<not> readonly ?s1 (get_cache_file_path ?s1 ?B)"
    unfolding ro1 by (rule twin_cache_facts)
  have e2: "files ?s2 ''/cache/kit.zip.cache''
      = Some \<lparr>content = JsonText (json_dump (PDict [(''file_stats'', stats_dict (4096, 1700000500)),
                (''metadata'', other_payload), (''timestamp'', PFloat (clock ?s1))])),
              st_size = wsize ?s1 (JsonText (json_dump (PDict [(''file_stats'', stats_dict (4096, 1700000500)),
                (''metadata'', other_payload), (''timestamp'', PFloat (clock ?s1))]))),
              st_mtime = clock ?s1\<rparr>"
    using cache_metadata_files_entry[OF f1B wB, of other_payload]
    by (simp add: cf1 twin_cache_facts(5) py_int_of_float_def)
  have diff: "files ?s2 ''/cache/kit.zip.cache'' \<noteq> files ?s1 ''/cache/kit.zip.cache''"
  proof
    assume "files ?s2 ''/cache/kit.zip.cache'' = files ?s1 ''/cache/kit.zip.cache''"
    then have "map_option content (files ?s2 ''/cache/kit.zip.cache'')
                 = map_option content (files ?s1 ''/cache/kit.zip.cache'')"
      by simp
    then show False
      unfolding e1 e2 by (simp add: stats_dict_def other_payload_def plain_payload_def)
  qed
  have f2A: "files ?s2 ?A = Some demo_archive"
    using cache_metadata_files_other[OF f1B, of ?A other_payload] f1A
    by (simp add: cf1 twin_cache_facts cache_index_file_def cd1 path_join_def startswith_def)
  have cd2: "cache_dir ?s2 = ''/cache''"
    using cache_metadata_fields(2)[OF f1B, of other_payload] cd1 by simp
  have cf2: "get_cache_file_path ?s2 ?A = ''/cache/kit.zip.cache''"
    using cd2 twin_cache_facts(4) by (simp add: get_cache_file_path_def twin_cache_def)
  have lc2: "load_cache ?A ?s2 = PDict [(''file_stats'', stats_dict (4096, 1700000500)),
                (''metadata'', json_roundtrip other_payload), (''timestamp'', PFloat (clock ?s1))]"
    unfolding load_cache_def cf2 e2
    by (simp del: json_dump.simps json_load.simps add: json_roundtrip_cache_data)
  have ix2: "?A \<in> set (map fst (cache_index ?s2))"
    unfolding cache_metadata_fields(1)[OF f1B] cache_metadata_fields(1)[OF twin_cache_facts(1)]
    using dom_update[of ?B "get_cache_file_path ?s1 ?B"
        "AList.update ?A (get_cache_file_path twin_cache ?A) (cache_index twin_cache)"]
      dom_update[of ?A "get_cache_file_path twin_cache ?A" "cache_index twin_cache"]
    by simp
  have g2: "get_cached_metadata ?A ?s2 = (Inr PNone, remove_from_cache ?A ?s2)"
    using get_cached_metadata_fingerprint[OF ix2 lc2 _ f2A, of 4096 1700000500]
    by (simp add: demo_archive_def)
  show ?thesis
    unfolding Let_def using g1 diff g2 by (simp add: twin_cache_facts(4,5))
qed

lemma ensure_zip_open_fields:
  assumes "ensure_zip_open zp s = (r, s1)"
  shows "cache_manager s1 = cache_manager s \<and> extracted_files s1 = extracted_files s"
  using assms
  by (auto simp: ensure_zip_open_def Let_def split: option.splits if_splits sum.splits)

lemma zip_read_whole:
  assumes "zip_read zp zf z None c = Inr d"
  shows "d = z_data z \<and> zipfile_open zp c = Inr zf"
  using assms by (auto simp: zip_read_def Let_def split: if_splits option.splits)

lemma extract_file_returns:
  assumes "extract_file zp name out s = (Inr p, s')"
  shows "p = path_join out (basename name) \<and>
         (\<exists>zf z. map_of (open_zips s') zp = Some zf \<and> getinfo zf name = Some z \<and>
                 map_option content (files (cache_manager s') p) = Some (RawBytes (z_data z)))"
proof -
  obtain r s1 where e: "ensure_zip_open zp s = (r, s1)"
    by (cases "ensure_zip_open zp s") auto
  obtain zf where r: "r = Inr zf"
    using assms e by (cases r) (simp_all add: extract_file_def)
  note ez = e[unfolded r]
  obtain z where info: "getinfo zf name = Some z"
    using assms ez by (cases "getinfo zf name") (simp_all add: extract_file_def)
  let ?p = "path_join out (basename name)"
  let ?s2 = "s1\<lparr>zip_io := zip_io s1 + 1\<rparr>"
  have body: "extract_file zp name out s =
     (if zipfile_open zp (cache_manager ?s2) \<noteq> Inr zf then (Inl OSError, ?s2)
      else (case fs_write ?p (RawBytes []) (cache_manager ?s2) of
              None \<Rightarrow> (Inl OSError, ?s2)
            | Some c3 \<Rightarrow>
                (case zip_read zp zf z None c3 of
                   Inl e \<Rightarrow> (Inl OSError, ?s2\<lparr>cache_manager := c3\<rparr>)
                 | Inr file_data \<Rightarrow>
                     (case fs_write ?p (RawBytes file_data) c3 of
                        None \<Rightarrow> (Inl OSError, ?s2\<lparr>cache_manager := c3\<rparr>)
                      | Some c4 \<Rightarrow>
                          if files c4 ?p = None then (Inl OSError, ?s2\<lparr>cache_manager := c4\<rparr>)
                          else (Inr ?p, ?s2\<lparr>cache_manager := c4,
                                  extracted_files := extracted_files ?s2 @ [?p]\<rparr>)))))"
    by (simp only: extract_file_def Let_def ez info prod.case sum.case option.case)
  have cur: "zipfile_open zp (cache_manager ?s2) = Inr zf"
    using assms unfolding body by (simp split: if_splits)
  obtain c3 where w1: "fs_write ?p (RawBytes []) (cache_manager ?s2) = Some c3"
    using assms cur unfolding body
    by (cases "fs_write ?p (RawBytes []) (cache_manager ?s2)") simp_all
  obtain d where rd: "zip_read zp zf z None c3 = Inr d"
    using assms cur w1 unfolding body
    by (cases "zip_read zp zf z None c3") simp_all
  obtain c4 where w2: "fs_write ?p (RawBytes d) c3 = Some c4"
    using assms cur w1 rd unfolding body
    by (cases "fs_write ?p (RawBytes d) c3") simp_all
  have res: "p = ?p \<and> s' = ?s2\<lparr>cache_manager := c4, extracted_files := extracted_files ?s2 @ [?p]\<rparr>"
    using assms cur w1 rd w2 unfolding body by (auto split: if_splits)
  have d: "d = z_data z" using zip_read_whole[OF rd] by simp
  have held: "map_of (open_zips s1) zp = Some zf"
    using ensure_zip_open_result[OF ez] by simp
  have "map_option content (files c4 ?p) = Some (RawBytes (z_data z))"
    using fs_write_fields(6)[OF w2] d by simp
  then show ?thesis
    using res held info by auto
qed

lemma base_name_path_writable:
  assumes "basename name \<noteq> []" "\<not> readonly c (path_join out (basename name))"
  shows "fs_write (path_join out (basename name)) d c
     = Some (c\<lparr>files := (files c)(path_join out (basename name) \<mapsto>
                \<lparr>content = d, st_size = wsize c d, st_mtime = clock c\<rparr>)\<rparr>)"
proof -
  have ns: "CHR ''/'' \<notin> set (basename name)" by (rule basename_no_slash)
  have "path_join out (basename name) \<noteq> [] \<and>
        last (path_join out (basename name)) = last (basename name)"
    by (rule last_path_join[OF assms(1) ns])
  moreover have "last (basename name) \<noteq> CHR ''/''"
    using ns assms(1) last_in_set by fastforce
  ultimately show ?thesis
    using assms(2) by (simp add: fs_write_def)
qed

lemma extract_file_opened:
  assumes ez: "ensure_zip_open zp s = (Inr zf, s1)" and info: "getinfo zf name = Some z"
    and cur: "zipfile_open zp (cache_manager s1) = Inr zf" and ok: "z_fault z = None"
    and bn: "basename name \<noteq> []" and other: "path_join out (basename name) \<noteq> zp"
    and w: "\<not> readonly (cache_manager s1) (path_join out (basename name))"
  shows "extract_file zp name out s =
     (Inr (path_join out (basename name)),
      s1\<lparr>zip_io := zip_io s1 + 1,
        cache_manager := (cache_manager s1)\<lparr>files := (files (cache_manager s1))
           (path_join out (basename name) \<mapsto>
              \<lparr>content = RawBytes (z_data z),
               st_size = wsize (cache_manager s1) (RawBytes (z_data z)),
               st_mtime = clock (cache_manager s1)\<rparr>)\<rparr>,
        extracted_files := extracted_files s1 @ [path_join out (basename name)]\<rparr>)"
proof -
  let ?p = "path_join out (basename name)"
  let ?c = "cache_manager s1"
  let ?c3 = "?c\<lparr>files := (files ?c)(?p \<mapsto>
               \<lparr>content = RawBytes [], st_size = wsize ?c (RawBytes []), st_mtime = clock ?c\<rparr>)\<rparr>"
  have w1: "fs_write ?p (RawBytes []) ?c = Some ?c3"
    by (rule base_name_path_writable[OF bn w])
  have cur3: "zipfile_open zp ?c3 = Inr zf"
    using cur other by (simp add: zipfile_open_def)
  have rd: "zip_read zp zf z None ?c3 = Inr (z_data z)"
    using cur3 ok by (simp add: zip_read_def)
  have w3: "\<not> readonly ?c3 ?p" using w by simp
  have w2: "fs_write ?p (RawBytes (z_data z)) ?c3 =
      Some (?c\<lparr>files := (files ?c)(?p \<mapsto>
               \<lparr>content = RawBytes (z_data z), st_size = wsize ?c (RawBytes (z_data z)),
                st_mtime = clock ?c\<rparr>)\<rparr>)"
    using base_name_path_writable[OF bn w3, of "RawBytes (z_data z)"] by simp
  show ?thesis
    unfolding extract_file_def
    using ez info cur w1 rd w2
    by (simp add: Let_def)
qed

text \<open>
  C9: \<open>extract_file\<close>, whenever it returns, returns \<open>output_dir\<close> joined with the
  base name of the entry, and the file at that path then holds the bytes of the entry.
  For two entries with the same non-empty base name, of an archive that the manager
  opens or holds and whose file is still the archive it opened, both of them readable
  to their end, and an output path that can be written and is not the archive's own
  path, both calls return that same path, the file there holds the first entry's bytes
  after the first call and the second entry's bytes after the second, and the path is
  recorded twice.
\<close>

theorem extract_file_discards_folders:
  "(extract_file zp name out s = (Inr p, s') \<longrightarrow>
      p = path_join out (basename name) \<and>
      (\<exists>zf z. map_of (open_zips s') zp = Some zf \<and> getinfo zf name = Some z \<and>
              map_option content (files (cache_manager s') p) = Some (RawBytes (z_data z)))) \<and>
   (ensure_zip_open zp s = (Inr zf, s1) \<longrightarrow> zipfile_open zp (cache_manager s) = Inr zf \<longrightarrow>
    getinfo zf n1 = Some z1 \<longrightarrow> getinfo zf n2 = Some z2 \<longrightarrow>
    z_fault z1 = None \<longrightarrow> z_fault z2 = None \<longrightarrow>
    basename n1 = basename n2 \<longrightarrow> basename n1 \<noteq> [] \<longrightarrow>
    path_join out (basename n1) \<noteq> zp \<longrightarrow>
    \<not> readonly (cache_manager s) (path_join out (basename n1)) \<longrightarrow>
    (\<exists>sa sb. extract_file zp n1 out s = (Inr (path_join out (basename n1)), sa) \<and>
        map_option content (files (cache_manager sa) (path_join out (basename n1)))
          = Some (RawBytes (z_data z1)) \<and>
        extract_file zp n2 out sa = (Inr (path_join out (basename n1)), sb) \<and>
        map_option content (files (cache_manager sb) (path_join out (basename n1)))
          = Some (RawBytes (z_data z2)) \<and>
        extracted_files sb = extracted_files s @ [path_join out (basename n1), path_join out (basename n1)]))"
proof (intro conjI impI)
  assume r: "extract_file zp name out s = (Inr p, s')"
  show "p = path_join out (basename name)"
    using extract_file_returns[OF r] by simp
  show "\<exists>zf z. map_of (open_zips s') zp = Some zf \<and> getinfo zf name = Some z \<and>
              map_option content (files (cache_manager s') p) = Some (RawBytes (z_data z))"
    using extract_file_returns[OF r] by blast
next
  let ?p = "path_join out (basename n1)"
  assume ez: "ensure_zip_open zp s = (Inr zf, s1)" and cur: "zipfile_open zp (cache_manager s) = Inr zf"
    and i1: "getinfo zf n1 = Some z1"
    and i2: "getinfo zf n2 = Some z2" and ok1: "z_fault z1 = None" and ok2: "z_fault z2 = None"
    and same: "basename n1 = basename n2"
    and bn: "basename n1 \<noteq> []" and other: "?p \<noteq> zp" and w: "\<not> readonly (cache_manager s) ?p"
  have held1: "map_of (open_zips s1) zp = Some zf" and cm1: "cache_manager s1 = cache_manager s"
    using ensure_zip_open_result[OF ez] by simp_all
  have ef1: "extracted_files s1 = extracted_files s"
    using ensure_zip_open_fields[OF ez] by simp
  have w1: "\<not> readonly (cache_manager s1) ?p" using w cm1 by simp
  have cur1: "zipfile_open zp (cache_manager s1) = Inr zf" using cur cm1 by simp
  let ?sa = "s1\<lparr>zip_io := zip_io s1 + 1,
        cache_manager := (cache_manager s1)\<lparr>files := (files (cache_manager s1))
           (?p \<mapsto> \<lparr>content = RawBytes (z_data z1),
               st_size = wsize (cache_manager s1) (RawBytes (z_data z1)),
               st_mtime = clock (cache_manager s1)\<rparr>)\<rparr>,
        extracted_files := extracted_files s1 @ [?p]\<rparr>"
  have first: "extract_file zp n1 out s = (Inr ?p, ?sa)"
    by (rule extract_file_opened[OF ez i1 cur1 ok1 bn other w1])
  have helda: "map_of (open_zips ?sa) zp = Some zf" using held1 by simp
  have bn2: "basename n2 \<noteq> []" using bn same by simp
  have other2: "path_join out (basename n2) \<noteq> zp" using other same by simp
  have wa: "\<not> readonly (cache_manager ?sa) (path_join out (basename n2))"
    using w1 same by simp
  have cura: "zipfile_open zp (cache_manager ?sa) = Inr zf"
    using cur1 other by (simp add: zipfile_open_def)
  let ?sb = "?sa\<lparr>zip_io := zip_io ?sa + 1,
        cache_manager := (cache_manager ?sa)\<lparr>files := (files (cache_manager ?sa))
           (path_join out (basename n2) \<mapsto> \<lparr>content = RawBytes (z_data z2),
               st_size = wsize (cache_manager ?sa) (RawBytes (z_data z2)),
               st_mtime = clock (cache_manager ?sa)\<rparr>)\<rparr>,
        extracted_files := extracted_files ?sa @ [path_join out (basename n2)]\<rparr>"
  have second: "extract_file zp n2 out ?sa = (Inr (path_join out (basename n2)), ?sb)"
    by (rule extract_file_opened[OF ensure_zip_open_held[OF helda] i2 cura ok2 bn2 other2 wa])
  have c1: "map_option content (files (cache_manager ?sa) ?p) = Some (RawBytes (z_data z1))"
    by simp
  have c2: "map_option content (files (cache_manager ?sb) ?p) = Some (RawBytes (z_data z2))"
    using same by simp
  have c3: "extracted_files ?sb = extracted_files s @ [?p, ?p]"
    using same ef1 by simp
  show "\<exists>sa sb. extract_file zp n1 out s = (Inr ?p, sa) \<and>
        map_option content (files (cache_manager sa) ?p) = Some (RawBytes (z_data z1)) \<and>
        extract_file zp n2 out sa = (Inr ?p, sb) \<and>
        map_option content (files (cache_manager sb) ?p) = Some (RawBytes (z_data z2)) \<and>
        extracted_files sb = extracted_files s @ [?p, ?p]"
    using first second c1 c2 c3 same by (intro exI[of _ ?sa] exI[of _ ?sb]) simp
qed


theorem extract_file_discards_folders_witness:
  "\<exists>sa sb. extract_file ''/music/kit.zip'' ''drums/kick.wav'' ''/out'' kicks_manager
               = (Inr ''/out/kick.wav'', sa) \<and>
      map_option content (files (cache_manager sa) ''/out/kick.wav'') = Some (RawBytes [1, 2, 3]) \<and>
      extract_file ''/music/kit.zip'' ''old/kick.wav'' ''/out'' sa = (Inr ''/out/kick.wav'', sb) \<and>
      map_option content (files (cache_manager sb) ''/out/kick.wav'') = Some (RawBytes [9, 9])"
proof -
  let ?zf = "[kick_a, kick_b]"
  obtain s1 where ez: "ensure_zip_open ''/music/kit.zip'' kicks_manager = (Inr ?zf, s1)"
    by (simp add: ensure_zip_open_def kicks_manager_def fresh_manager_def zipfile_open_def Let_def)
  have i1: "getinfo ?zf ''drums/kick.wav'' = Some kick_a"
    and i2: "getinfo ?zf ''old/kick.wav'' = Some kick_b"
    by (simp_all add: getinfo_def kick_a_def kick_b_def)
  have b1: "basename ''drums/kick.wav'' = ''kick.wav''" and b2: "basename ''old/kick.wav'' = ''kick.wav''"
    by (simp_all add: basename_def after_last_def)
  have same: "basename ''drums/kick.wav'' = basename ''old/kick.wav''"
    by (simp add: b1 b2)
  have bn: "basename ''drums/kick.wav'' \<noteq> []"
    by (simp add: b1)
  have w: "\<not> readonly (cache_manager kicks_manager) (path_join ''/out'' (basename ''drums/kick.wav''))"
    by (simp add: kicks_manager_def fresh_manager_def demo_cache_def)
  have pj: "path_join ''/out'' (basename ''drums/kick.wav'') = ''/out/kick.wav''"
    by (simp add: b1 path_join_def startswith_def)
  have cur: "zipfile_open ''/music/kit.zip'' (cache_manager kicks_manager) = Inr ?zf"
    by (simp add: zipfile_open_def kicks_manager_def fresh_manager_def)
  have ok: "z_fault kick_a = None" "z_fault kick_b = None"
    by (simp_all add: kick_a_def kick_b_def)
  have other: "path_join ''/out'' (basename ''drums/kick.wav'') \<noteq> ''/music/kit.zip''"
    by (simp add: pj)
  from extract_file_discards_folders[of "''/music/kit.zip''" "''drums/kick.wav''" "''/out''"
      kicks_manager "''/out/kick.wav''" kicks_manager ?zf s1 "''drums/kick.wav''" kick_a
      "''old/kick.wav''" kick_b] ez cur i1 i2 ok same bn other w
  show ?thesis
    unfolding pj by (simp add: kick_a_def kick_b_def) blast
qed

lemma py_int_eq_unique: "py_int_eq a v \<Longrightarrow> py_int_eq b v \<Longrightarrow> a = b"
  by (cases v) (auto split: if_splits)

lemma remove_from_cache_files_other:
  assumes "map_of (cache_index s) A = Some cf" "p \<noteq> cf" "p \<noteq> cache_index_file s"
  shows "files (remove_from_cache A s) p = files s p"
proof -
  let ?s1 = "if files s cf \<noteq> None then (case fs_remove cf s of None \<Rightarrow> s | Some s' \<Rightarrow> s') else s"
  have f1: "files ?s1 p = files s p"
    using assms(2) by (auto simp: fs_remove_def split: option.splits if_splits)
  have d1: "cache_dir ?s1 = cache_dir s"
    by (auto simp: fs_remove_def split: option.splits if_splits)
  let ?s2 = "?s1\<lparr>cache_index := AList.delete A (cache_index ?s1)\<rparr>"
  have ix: "p \<noteq> cache_index_file ?s2"
    using assms(3) d1 by (simp add: cache_index_file_def)
  have "remove_from_cache A s = save_cache_index ?s2"
    using assms(1) by (simp add: remove_from_cache_def Let_def)
  then show ?thesis
    using save_cache_index_files[OF ix] f1 by simp
qed

lemma entry_valid_size_changed:
  assumes v: "entry_valid A c m" and f: "files c A = Some f" and ne: "st_size f' \<noteq> st_size f"
  shows "get_cached_metadata A (c\<lparr>files := (files c)(A \<mapsto> f')\<rparr>)
           = (Inr PNone, remove_from_cache A (c\<lparr>files := (files c)(A \<mapsto> f')\<rparr>))"
proof -
  let ?c' = "c\<lparr>files := (files c)(A \<mapsto> f')\<rparr>"
  from v f obtain kvs file_stats cached_size where
    idx: "A \<in> set (map fst (cache_index c))" and
    lc: "load_cache A c = PDict kvs" and
    fs: "map_of kvs ''file_stats'' = Some file_stats" and
    sz: "py_getitem file_stats ''size'' = Inr cached_size" "py_int_eq (int (st_size f)) cached_size"
    unfolding entry_valid_def by auto
  have lc': "load_cache A ?c' = PDict kvs"
    using lc cache_file_neq_archive[of c A] by (simp add: load_cache_def)
  have idx': "A \<in> set (map fst (cache_index ?c'))" using idx by simp
  have f': "files ?c' A = Some f'" by simp
  have nz: "kvs \<noteq> []" using fs by auto
  have key: "''file_stats'' \<in> fst ` set kvs"
    using fs by (metis map_of_eq_None_iff option.distinct(1))
  have gi: "py_getitem (PDict kvs) ''file_stats'' = Inr file_stats"
    using fs by simp
  have diff: "\<not> py_int_eq (int (st_size f')) cached_size"
    using py_int_eq_unique[OF sz(2), of "int (st_size f')"] ne by auto
  show ?thesis
    unfolding get_cached_metadata_def
    using idx' lc' f' sz(1) diff nz key gi
    by (simp add: calculate_file_stats_def Let_def del: py_getitem.simps)
qed

text \<open>
  C5, as stated, fails: the manager that opened the demo archive holds it open. Once
  the archive's file has changed, \<open>get_cached_metadata\<close> returns \<open>None\<close>, and the
  next \<open>load_zip\<close> of that manager returns with \<open>used_cache\<close> set, through the
  branch for an archive that is already open; \<open>list_audio_files\<close> then returns the
  names of the first open, read from the archive held open, without reading the file,
  whose one entry is now \<open>drums/tom.wav\<close>.
\<close>

theorem changed_archive_listed_from_handle:
  "fst (get_cached_metadata ''/music/kit.zip'' (cache_manager changed_manager)) = Inr PNone \<and>
   load_zip ''/music/kit.zip'' changed_manager
     = (Inr \<lparr>used_cache = True, steps = [''opening'']\<rparr>, reopened_manager) \<and>
   list_audio_files ''/music/kit.zip'' reopened_manager = (Inr demo_listing, reopened_manager) \<and>
   zip_io reopened_manager = zip_io opened_manager \<and>
   zipfile_open ''/music/kit.zip'' (cache_manager reopened_manager) = Inr [demo_entry ''drums/tom.wav''] \<and>
   scan_audio_files (namelist [demo_entry ''drums/tom.wav'']) = [''drums/tom.wav'']"
proof -
  let ?A = "''/music/kit.zip''"
  let ?zf = "map demo_entry demo_names"
  have ex: "files (cache_manager (fresh_manager demo_cache)) ?A \<noteq> None"
    by (simp add: demo_manager_facts demo_cache_facts)
  obtain fm n where ld: "load_zip ?A (fresh_manager demo_cache) = (Inr scan_stats,
      (fresh_manager demo_cache)\<lparr>cache_manager := snd (cache_metadata ?A (scan_payload ?zf fm) demo_cache),
        open_zips := AList.update ?A ?zf (open_zips (fresh_manager demo_cache)), zip_io := n\<rparr>)"
    using load_zip_scan[of ?A "fresh_manager demo_cache" demo_cache ?zf,
        OF _ demo_manager_facts(2) ex demo_manager_facts(4,5)]
      demo_manager_facts(1,3)
    by auto
  let ?c = "snd (cache_metadata ?A (scan_payload ?zf fm) demo_cache)"
  have om: "opened_manager = (fresh_manager demo_cache)\<lparr>cache_manager := ?c,
        open_zips := AList.update ?A ?zf (open_zips (fresh_manager demo_cache)), zip_io := n\<rparr>"
    unfolding opened_manager_def using ld by simp
  have cm: "cache_manager opened_manager = ?c" and oz: "open_zips opened_manager = [(?A, ?zf)]"
    unfolding om by (simp_all add: fresh_manager_def)
  obtain m where v: "entry_valid ?A ?c m"
    using first_open_scan_valid[OF ld demo_hyps(1) demo_manager_facts(2) demo_hyps(2,3)]
    by auto
  have fa: "files ?c ?A = Some demo_archive"
    using demo_archive_after_open cm by (simp add: opened_manager_def)
  have ne: "st_size grown_archive \<noteq> st_size demo_archive"
    by (simp add: grown_archive_def demo_archive_def)
  let ?c' = "?c\<lparr>files := (files ?c)(?A \<mapsto> grown_archive)\<rparr>"
  let ?c1 = "remove_from_cache ?A ?c'"
  have cmc: "cache_manager changed_manager = ?c'"
    unfolding changed_manager_def cm by simp
  have ozc: "open_zips changed_manager = [(?A, ?zf)]"
    unfolding changed_manager_def using oz by simp
  have g: "get_cached_metadata ?A (cache_manager changed_manager) = (Inr PNone, ?c1)"
    unfolding cmc by (rule entry_valid_size_changed[OF v fa ne])
  have exc: "files (cache_manager changed_manager) ?A \<noteq> None"
    unfolding cmc by simp
  have mem: "?A \<in> set (map fst (open_zips changed_manager))"
    unfolding ozc by simp
  have lz: "load_zip ?A changed_manager
      = (Inr \<lparr>used_cache = True, steps = [''opening'']\<rparr>, changed_manager\<lparr>cache_manager := ?c1\<rparr>)"
    by (rule load_zip_lookup_held[OF exc g mem])
  have rm: "reopened_manager = changed_manager\<lparr>cache_manager := ?c1\<rparr>"
    unfolding reopened_manager_def lz by simp
  have g1: "get_cached_metadata ?A (cache_manager reopened_manager) = (Inr PNone, ?c1)"
    unfolding rm using get_cached_metadata_unregistered[OF remove_from_cache_index[of ?A ?c']] by simp
  have held: "map_of (open_zips reopened_manager) ?A = Some ?zf"
    unfolding rm using ozc by simp
  have same: "reopened_manager\<lparr>cache_manager := ?c1\<rparr> = reopened_manager"
    unfolding rm by simp
  have ls: "list_audio_files ?A reopened_manager = (Inr demo_listing, reopened_manager)"
    by (simp only: list_audio_files_miss[OF g1] same ensure_zip_open_held[OF held]
        prod.case sum.case demo_scan)
  have io: "zip_io reopened_manager = zip_io opened_manager"
    unfolding rm changed_manager_def by simp
  have idx: "map_of (cache_index ?c') ?A = Some (get_cache_file_path ?c' ?A)"
  proof -
    from v have "?A \<in> set (map fst (cache_index ?c))" unfolding entry_valid_def by simp
    moreover have "cache_index ?c = AList.update ?A (get_cache_file_path demo_cache ?A) (cache_index demo_cache)"
      using cache_metadata_fields[OF demo_cache_facts(1), of "scan_payload ?zf fm"] by simp
    moreover have "cache_dir ?c = cache_dir demo_cache"
      using cache_metadata_fields[OF demo_cache_facts(1), of "scan_payload ?zf fm"] by simp
    ultimately show ?thesis
      by (simp add: update_conv' get_cache_file_path_def)
  qed
  have nix: "?A \<noteq> cache_index_file ?c'"
    using demo_hyps(3) cache_metadata_fields[OF demo_cache_facts(1), of "scan_payload ?zf fm"]
    by (simp add: cache_index_file_def demo_manager_facts(1))
  have "files ?c1 ?A = files ?c' ?A"
    by (rule remove_from_cache_files_other[OF idx _ nix]) (simp add: cache_file_neq_archive[symmetric])
  then have zo: "zipfile_open ?A (cache_manager reopened_manager) = Inr [demo_entry ''drums/tom.wav'']"
    unfolding rm by (simp add: zipfile_open_def grown_archive_def)
  have sc: "scan_audio_files (namelist [demo_entry ''drums/tom.wav'']) = [''drums/tom.wav'']"
  proof -
    have "namelist [demo_entry ''drums/tom.wav''] = [''drums/tom.wav'']"
      by (simp add: namelist_def demo_entry_def)
    moreover have "scan_audio_files [''drums/tom.wav''] = [''drums/tom.wav'']"
      by code_simp
    ultimately show ?thesis by simp
  qed
  show ?thesis
    using g lz rm ls io zo sc by simp
qed

text \<open>
  C5, amended: an entry in the fingerprint format is served exactly while the archive's
  size and (whole-second) modification time, as \<open>_calculate_file_stats\<close> reads them,
  equal the stored ones. When either differs, \<open>get_cached_metadata\<close> returns \<open>None\<close>,
  the archive is no longer registered in the index, its entry file is gone (when it can
  be removed) and the next lookup returns \<open>None\<close> again. A following \<open>load_zip\<close>
  never returns through the cache-lookup branch: on a manager that does not hold the
  archive open it opens the archive as it is now, scans it and stores that scan; on a
  manager that holds the archive open it returns through the branch for an archive that
  is already open.
\<close>

theorem stale_entry_removed:
  assumes "map_of (cache_index s) A = Some (get_cache_file_path s A)"
    and "load_cache A s = PDict kvs"
    and "map_of kvs ''file_stats'' = Some (stats_dict (stored_size, stored_mtime))"
    and "files s A = Some f"
  shows "if int (st_size f) = stored_size \<and> py_int_of_float (st_mtime f) = stored_mtime
         then get_cached_metadata A s = (py_getitem (PDict kvs) ''metadata'', s)
         else get_cached_metadata A s = (Inr PNone, remove_from_cache A s) \<and>
              A \<notin> set (map fst (cache_index (remove_from_cache A s))) \<and>
              (\<not> readonly s (get_cache_file_path s A) \<longrightarrow>
                 files (remove_from_cache A s) (get_cache_file_path s A) = None) \<and>
              get_cached_metadata A (remove_from_cache A s) = (Inr PNone, remove_from_cache A s) \<and>
              (\<forall>z. cache_manager z = s \<longrightarrow> fst (load_zip A z) \<noteq> Inr hit_stats) \<and>
              (\<forall>z zf. cache_manager z = s \<longrightarrow> A \<notin> set (map fst (open_zips z)) \<longrightarrow>
                 zipfile_open A (remove_from_cache A s) = Inr zf \<longrightarrow>
                 filter (\<lambda>e. has_audio_extension (filename e)) zf \<noteq> [] \<longrightarrow>
                 (\<exists>fm n. load_zip A z =
                    (Inr scan_stats,
                     z\<lparr>cache_manager := snd (cache_metadata A (scan_payload zf fm) (remove_from_cache A s)),
                       open_zips := AList.update A zf (open_zips z), zip_io := n\<rparr>))) \<and>
              (\<forall>z. cache_manager z = s \<longrightarrow> A \<in> set (map fst (open_zips z)) \<longrightarrow>
                 load_zip A z = (Inr \<lparr>used_cache = True, steps = [''opening'']\<rparr>,
                                 z\<lparr>cache_manager := remove_from_cache A s\<rparr>))"
proof -
  have idx: "A \<in> set (map fst (cache_index s))"
    using assms(1) by (metis map_of_eq_None_iff option.distinct(1) set_map)
  note g = get_cached_metadata_fingerprint[OF idx assms(2,3,4)]
  show ?thesis
  proof (cases "int (st_size f) = stored_size \<and> py_int_of_float (st_mtime f) = stored_mtime")
    case True
    then show ?thesis using g by simp
  next
    case False
    have g': "get_cached_metadata A s = (Inr PNone, remove_from_cache A s)"
      using g False by simp
    have c5: "\<forall>z. cache_manager z = s \<longrightarrow> fst (load_zip A z) \<noteq> Inr hit_stats"
      using g' load_zip_miss_not_hit by blast
    have c3: "\<not> readonly s (get_cache_file_path s A) \<longrightarrow>
                 files (remove_from_cache A s) (get_cache_file_path s A) = None"
      using remove_from_cache_file[OF assms(1)] cache_file_neq_index[of s A s] by simp
    have c2: "A \<notin> set (map fst (cache_index (remove_from_cache A s)))"
      by (rule remove_from_cache_index)
    have c4: "get_cached_metadata A (remove_from_cache A s) = (Inr PNone, remove_from_cache A s)"
      by (rule get_cached_metadata_unregistered[OF c2])
    have c6: "\<forall>z zf. cache_manager z = s \<longrightarrow> A \<notin> set (map fst (open_zips z)) \<longrightarrow>
                 zipfile_open A (remove_from_cache A s) = Inr zf \<longrightarrow>
                 filter (\<lambda>e. has_audio_extension (filename e)) zf \<noteq> [] \<longrightarrow>
                 (\<exists>fm n. load_zip A z =
                    (Inr scan_stats,
                     z\<lparr>cache_manager := snd (cache_metadata A (scan_payload zf fm) (remove_from_cache A s)),
                       open_zips := AList.update A zf (open_zips z), zip_io := n\<rparr>))"
    proof (intro allI impI)
      fix z :: zip_state and zf
      assume z: "cache_manager z = s" and closed: "A \<notin> set (map fst (open_zips z))"
        and zo: "zipfile_open A (remove_from_cache A s) = Inr zf"
        and au: "filter (\<lambda>e. has_audio_extension (filename e)) zf \<noteq> []"
      have miss: "get_cached_metadata A (cache_manager z) = (Inr PNone, remove_from_cache A s)"
        using g' z by simp
      have ex: "files (cache_manager z) A \<noteq> None" using assms(4) z by simp
      show "\<exists>fm n. load_zip A z =
                    (Inr scan_stats,
                     z\<lparr>cache_manager := snd (cache_metadata A (scan_payload zf fm) (remove_from_cache A s)),
                       open_zips := AList.update A zf (open_zips z), zip_io := n\<rparr>)"
        by (rule load_zip_scan[OF miss closed ex zo au])
    qed
    have c7: "\<forall>z. cache_manager z = s \<longrightarrow> A \<in> set (map fst (open_zips z)) \<longrightarrow>
                 load_zip A z = (Inr \<lparr>used_cache = True, steps = [''opening'']\<rparr>,
                                 z\<lparr>cache_manager := remove_from_cache A s\<rparr>)"
    proof (intro allI impI)
      fix z :: zip_state
      assume z: "cache_manager z = s" and mem: "A \<in> set (map fst (open_zips z))"
      have miss: "get_cached_metadata A (cache_manager z) = (Inr PNone, remove_from_cache A s)"
        using g' z by simp
      have ex: "files (cache_manager z) A \<noteq> None" using assms(4) z by simp
      show "load_zip A z = (Inr \<lparr>used_cache = True, steps = [''opening'']\<rparr>,
                                 z\<lparr>cache_manager := remove_from_cache A s\<rparr>)"
        by (rule load_zip_lookup_held[OF ex miss mem])
    qed
    show ?thesis
      unfolding if_not_P[OF False] by (intro conjI g' c2 c3 c4 c5 c6 c7)
  qed
qed

theorem stale_entry_removed_witness:
  "get_cached_metadata ''/music/kit.zip'' cached_cache = (Inr plain_payload, cached_cache) \<and>
   get_cached_metadata ''/music/kit.zip'' stale_cache
     = (Inr PNone, remove_from_cache ''/music/kit.zip'' stale_cache) \<and>
   files (remove_from_cache ''/music/kit.zip'' stale_cache) ''/cache/kit.zip.cache'' = None \<and>
   fst (load_zip ''/music/kit.zip'' (fresh_manager stale_cache)) = Inr scan_stats \<and>
   open_zips (snd (load_zip ''/music/kit.zip'' (fresh_manager stale_cache)))
     = [(''/music/kit.zip'', map demo_entry demo_names)] \<and>
   load_zip ''/music/kit.zip'' holding_manager
     = (Inr \<lparr>used_cache = True, steps = [''opening'']\<rparr>,
        holding_manager\<lparr>cache_manager := remove_from_cache ''/music/kit.zip'' stale_cache\<rparr>)"
proof -
  let ?A = "''/music/kit.zip''"
  let ?kvs = "[(''file_stats'', stats_dict (2048, 1700000000)), (''metadata'', plain_payload),
               (''timestamp'', PFloat 1700000100)]"
  have fs: "map_of ?kvs ''file_stats'' = Some (stats_dict (2048, 1700000000))"
    by simp
  have ix1: "map_of (cache_index cached_cache) ?A = Some (get_cache_file_path cached_cache ?A)"
    by (simp add: cached_cache_facts)
  have ix2: "map_of (cache_index stale_cache) ?A = Some (get_cache_file_path stale_cache ?A)"
    by (simp add: stale_cache_facts)
  have a: "get_cached_metadata ?A cached_cache = (Inr plain_payload, cached_cache)"
    using stale_entry_removed[OF ix1 cached_cache_facts(4) fs cached_cache_facts(3)]
    by (simp add: demo_archive_def py_int_of_float_def)
  have cm: "cache_manager (fresh_manager stale_cache) = stale_cache"
    by (simp add: fresh_manager_def)
  have closed: "?A \<notin> set (map fst (open_zips (fresh_manager stale_cache)))"
    by (rule demo_manager_facts(2))
  have nix: "?A \<noteq> cache_index_file stale_cache"
    using demo_cache_facts(4)
    by (simp add: stale_cache_def cached_cache_def cache_index_file_def)
  have "files (remove_from_cache ?A stale_cache) ?A = files stale_cache ?A"
    by (rule remove_from_cache_files_other[OF ix2 _ nix])
       (simp add: cache_file_neq_archive[symmetric])
  then have zo: "zipfile_open ?A (remove_from_cache ?A stale_cache) = Inr (map demo_entry demo_names)"
    by (simp add: zipfile_open_def stale_cache_facts demo_archive_def)
  have hm: "cache_manager holding_manager = stale_cache"
    "?A \<in> set (map fst (open_zips holding_manager))"
    by (simp_all add: holding_manager_def fresh_manager_def)
  note st = stale_entry_removed[OF ix2 stale_cache_facts(4) fs stale_cache_facts(3)]
  have ne: "\<not> (int (st_size (demo_archive\<lparr>st_size := 4096\<rparr>)) = 2048 \<and>
       py_int_of_float (st_mtime (demo_archive\<lparr>st_size := 4096\<rparr>)) = 1700000000)"
    by simp
  note st' = st[unfolded if_not_P[OF ne]]
  have b: "get_cached_metadata ?A stale_cache = (Inr PNone, remove_from_cache ?A stale_cache)"
    using st' by blast
  have c: "files (remove_from_cache ?A stale_cache) ''/cache/kit.zip.cache'' = None"
    using st' stale_cache_facts(1,5) by simp
  obtain fm n where d: "load_zip ?A (fresh_manager stale_cache) =
       (Inr scan_stats,
        (fresh_manager stale_cache)\<lparr>cache_manager := snd (cache_metadata ?A
             (scan_payload (map demo_entry demo_names) fm) (remove_from_cache ?A stale_cache)),
           open_zips := AList.update ?A (map demo_entry demo_names) (open_zips (fresh_manager stale_cache)),
           zip_io := n\<rparr>)"
    using st' cm closed zo demo_manager_facts(5) by blast
  have e: "load_zip ?A holding_manager
     = (Inr \<lparr>used_cache = True, steps = [''opening'']\<rparr>,
        holding_manager\<lparr>cache_manager := remove_from_cache ?A stale_cache\<rparr>)"
    using st' hm by blast
  have d': "fst (load_zip ?A (fresh_manager stale_cache)) = Inr scan_stats"
    "open_zips (snd (load_zip ?A (fresh_manager stale_cache))) = [(?A, map demo_entry demo_names)]"
    unfolding d by (simp_all add: fresh_manager_def)
  from a b c d' e show ?thesis by blast
qed

end
